theory Spec2Isabelle
  imports Main "HOL-Library.Sublist"
begin

section \<open>JavaScript strings\<close>

text \<open>
  A JavaScript string is modelled as a \<open>string\<close>: the list of its code units, each
  taken in the range 0..255. The regular expressions of the source are translated into
  scanners that find the leftmost match, as \<open>String.prototype.replace\<close> does.
\<close>

fun strip_prefix :: "string \<Rightarrow> string \<Rightarrow> string option" where
  "strip_prefix [] s = Some s"
| "strip_prefix (p # ps) [] = None"
| "strip_prefix (p # ps) (c # cs) = (if p = c then strip_prefix ps cs else None)"

text \<open>The class \<open>\s\<close>, which is also what \<open>trim\<close> removes: TAB, LF, VT, FF, CR, SP, NBSP.\<close>

definition js_space :: "char \<Rightarrow> bool" where
  "js_space c = (c \<in> set [CHR 0x09, CHR 0x0A, CHR 0x0B, CHR 0x0C, CHR 0x0D, CHR 0x20, CHR 0xA0])"

definition trim :: "string \<Rightarrow> string" where
  "trim s = rev (dropWhile js_space (rev (dropWhile js_space s)))"

text \<open>\<open>s.replace(/c/g, r)\<close> for a single character \<open>c\<close>.\<close>

definition replace_char_all :: "char \<Rightarrow> string \<Rightarrow> string \<Rightarrow> string" where
  "replace_char_all c r s = concat (map (\<lambda>x. if x = c then r else [x]) s)"

section \<open>NormalizeUtils\<close>

subsection \<open>removeLinks: \<open>text.replace(/https?:\/\/[^ ~]+/g, '')\<close>\<close>

text \<open>The class \<open>[^ ~]\<close>.\<close>

definition link_char :: "char \<Rightarrow> bool" where
  "link_char c = (c \<noteq> CHR '' '' \<and> c \<noteq> CHR ''~'')"

text \<open>\<open>https?:\/\/\<close> at the start of \<open>s\<close>: what follows the scheme.\<close>

definition match_scheme :: "string \<Rightarrow> string option" where
  "match_scheme s =
     (case strip_prefix ''https://'' s of
        Some r \<Rightarrow> Some r
      | None \<Rightarrow> strip_prefix ''http://'' s)"

text \<open>
  The whole pattern at the start of \<open>s\<close>: the scheme, then the longest non-empty run of
  \<open>[^ ~]\<close>. The result is the text after the match.
\<close>

definition link_match :: "string \<Rightarrow> string option" where
  "link_match s =
     (case match_scheme s of
        None \<Rightarrow> None
      | Some r \<Rightarrow> (if takeWhile link_char r = [] then None else Some (dropWhile link_char r)))"

function removeLinks :: "string \<Rightarrow> string" where
  "removeLinks [] = []"
| "removeLinks (c # cs) =
     (case link_match (c # cs) of
        Some rest \<Rightarrow> removeLinks rest
      | None \<Rightarrow> c # removeLinks cs)"
  by pat_completeness auto
termination
proof (relation "measure length")
  show "wf (measure length)" by simp
next
  fix c :: char and cs rest :: string
  assume a: "link_match (c # cs) = Some rest"
  have len: "strip_prefix p s = Some r \<Longrightarrow> length r \<le> length s" for p s r
    by (induction p s rule: strip_prefix.induct) (auto split: if_splits)
  from a obtain q where q: "match_scheme (c # cs) = Some q" and r: "rest = dropWhile link_char q"
    and ne: "takeWhile link_char q \<noteq> []"
    by (auto simp: link_match_def split: option.splits if_splits)
  from q have "strip_prefix ''https://'' (c # cs) = Some q
      \<or> strip_prefix ''http://'' (c # cs) = Some q"
    unfolding match_scheme_def by (cases "strip_prefix ''https://'' (c # cs)") simp_all
  then have "length q \<le> length (c # cs)"
    using len by blast
  moreover from ne have "length (dropWhile link_char q) < length q"
    by (cases q) (auto simp: le_imp_less_Suc length_dropWhile_le split: if_splits)
  ultimately show "(rest, c # cs) \<in> measure length" using r by simp
next
  fix c :: char and cs :: string
  show "(cs, c # cs) \<in> measure length" by simp
qed

subsection \<open>normalize\<close>

text \<open>The characters of \<open>/"|\{|\}|\*|:|<|>|\?|\/|\%|\+|\|/g\<close>.\<close>

definition reserved :: "char set" where
  "reserved = set (CHR 0x22 # ''{}*:<>?/%+|'')"

text \<open>\<open>.replace(/\.+/, '.')\<close>: only the first run of dots.\<close>

fun collapse_dots :: "string \<Rightarrow> string" where
  "collapse_dots [] = []"
| "collapse_dots (c # cs) =
     (if c = CHR ''.'' then CHR ''.'' # dropWhile (\<lambda>d. d = CHR ''.'') cs
      else c # collapse_dots cs)"

text \<open>\<open>.replace(/^~/, '')\<close>.\<close>

definition drop_tilde :: "string \<Rightarrow> string" where
  "drop_tilde s = (case s of [] \<Rightarrow> [] | c # cs \<Rightarrow> if c = CHR ''~'' then cs else s)"

text \<open>
  \<open>.replace(/^\.|\.$/, '')\<close>: the leftmost match only, so a leading dot when there is
  one, and otherwise a trailing dot.
\<close>

definition drop_edge_dot :: "string \<Rightarrow> string" where
  "drop_edge_dot s =
     (case s of
        [] \<Rightarrow> []
      | c # cs \<Rightarrow>
          if c = CHR ''.'' then cs
          else if last s = CHR ''.'' then butlast s
          else s)"

text \<open>\<open>.replace(/\s+/, ' ')\<close>: only the first run of white space.\<close>

fun collapse_space :: "string \<Rightarrow> string" where
  "collapse_space [] = []"
| "collapse_space (c # cs) =
     (if js_space c then CHR '' '' # dropWhile js_space cs
      else c # collapse_space cs)"

definition normalize :: "string \<Rightarrow> string" where
  "normalize text =
     trim
      (collapse_space
        (drop_edge_dot
          (drop_tilde
            (collapse_dots
              (replace_char_all (CHR ''&'') ''and''
                (replace_char_all (CHR 0x0A) '' - ''
                  (filter (\<lambda>c. c \<noteq> CHR 0x0D \<and> c \<noteq> CHR 0x09)
                    (filter (\<lambda>c. c \<notin> reserved)
                      (filter (\<lambda>c. c \<noteq> CHR ''*'')
                        (removeLinks text))))))))))"


section \<open>Values exchanged with the remote side\<close>

text \<open>
  What \<open>response.json()\<close> yields. \<open>JNum\<close> carries the text that JavaScript prints for
  the number; \<open>JObj\<close> lists the own properties of an object, each name once. A value
  that may be \<open>undefined\<close> is a \<open>json option\<close>, with \<open>None\<close> for \<open>undefined\<close>.
\<close>

datatype json =
    JNull
  | JBool bool
  | JNum string
  | JStr string
  | JArr "json list"
  | JObj "(string \<times> json) list"

datatype error = BaseError string | TypeError | SyntaxError | FetchError | WriteError

text \<open>The test of \<open>if (x)\<close> and \<open>!x\<close>.\<close>

fun truthy :: "json option \<Rightarrow> bool" where
  "truthy None = False"
| "truthy (Some JNull) = False"
| "truthy (Some (JBool b)) = b"
| "truthy (Some (JNum n)) = (n \<noteq> ''0'' \<and> n \<noteq> ''NaN'')"
| "truthy (Some (JStr s)) = (s \<noteq> [])"
| "truthy (Some (JArr xs)) = True"
| "truthy (Some (JObj kvs)) = True"

text \<open>
  Reading a property \<open>v.k\<close>, for the names the service reads (none of them is inherited
  from a prototype): a \<open>TypeError\<close> on \<open>null\<close> and \<open>undefined\<close>, \<open>undefined\<close> where the
  value has no such own property.
\<close>

fun get_field :: "json option \<Rightarrow> string \<Rightarrow> error + json option" where
  "get_field None k = Inl TypeError"
| "get_field (Some JNull) k = Inl TypeError"
| "get_field (Some (JObj kvs)) k = Inr (map_of kvs k)"
| "get_field (Some v) k = Inr None"

fun join_text :: "string option list \<Rightarrow> string option" where
  "join_text [] = Some []"
| "join_text [x] = x"
| "join_text (x # y # ys) =
     (case x of
        None \<Rightarrow> None
      | Some a \<Rightarrow> (case join_text (y # ys) of None \<Rightarrow> None | Some b \<Rightarrow> Some (a @ '','' @ b)))"

text \<open>
  The conversion to a string that a template literal, \<open>RegExp.prototype.test\<close> and
  \<open>FormData.append\<close> apply. \<open>None\<close> is the \<open>TypeError\<close> of an object whose own
  \<open>toString\<close> property is not a function, as every property of a parsed object is.
\<close>

fun to_string :: "json \<Rightarrow> string option" where
  "to_string JNull = Some ''null''"
| "to_string (JBool b) = Some (if b then ''true'' else ''false'')"
| "to_string (JNum n) = Some n"
| "to_string (JStr s) = Some s"
| "to_string (JArr xs) = join_text (map (\<lambda>x. if x = JNull then Some [] else to_string x) xs)"
| "to_string (JObj kvs) =
     (if ''toString'' \<in> fst ` set kvs then None else Some ''[object Object]'')"

definition text_of :: "json option \<Rightarrow> string option" where
  "text_of v = (case v of None \<Rightarrow> Some ''undefined'' | Some j \<Rightarrow> to_string j)"

text \<open>\<open>/p/.test(s)\<close> for a pattern \<open>p\<close> of literal characters.\<close>

fun contains :: "string \<Rightarrow> string \<Rightarrow> bool" where
  "contains p [] = (p = [])"
| "contains p (c # cs) =
     (case strip_prefix p (c # cs) of Some r \<Rightarrow> True | None \<Rightarrow> contains p cs)"

text \<open>
  The replacement text of \<open>template.replace(/%s/, r)\<close>: in \<open>r\<close>, \<open>$$\<close> stands for a
  dollar sign, \<open>$&\<close> for the match, and a dollar sign before a backquote or a quote
  for the text before or after the match.
\<close>

fun expand_replacement :: "string \<Rightarrow> string \<Rightarrow> string \<Rightarrow> string \<Rightarrow> string" where
  "expand_replacement m b a [] = []"
| "expand_replacement m b a [c] = [c]"
| "expand_replacement m b a (c # d # r) =
     (if c = CHR ''$'' \<and> d = CHR ''$'' then CHR ''$'' # expand_replacement m b a r
      else if c = CHR ''$'' \<and> d = CHR ''&'' then m @ expand_replacement m b a r
      else if c = CHR ''$'' \<and> d = CHR 0x60 then b @ expand_replacement m b a r
      else if c = CHR ''$'' \<and> d = CHR 0x27 then a @ expand_replacement m b a r
      else c # expand_replacement m b a (d # r))"

definition replace_percent_s :: "string \<Rightarrow> string \<Rightarrow> string \<Rightarrow> string" where
  "replace_percent_s before after r = before @ expand_replacement ''%s'' before after r @ after"

subsection \<open>Base64, as \<open>Buffer\<close> encodes and decodes it\<close>

definition b64_chars :: string where
  "b64_chars = ''ABCDEFGHIJKLMNOPQRSTUVWXYZabcdefghijklmnopqrstuvwxyz0123456789+/''"

definition b64_char :: "char \<Rightarrow> bool" where
  "b64_char c = (c \<in> set b64_chars)"

fun index_of :: "char \<Rightarrow> string \<Rightarrow> nat" where
  "index_of c [] = 0"
| "index_of c (x # xs) = (if x = c then 0 else Suc (index_of c xs))"

definition b64_val :: "char \<Rightarrow> nat" where
  "b64_val c = index_of c b64_chars"

definition b64_sym :: "nat \<Rightarrow> char" where
  "b64_sym n = b64_chars ! (n mod 64)"

fun b64_decode :: "string \<Rightarrow> nat list" where
  "b64_decode (a # b # c # d # r) =
     (let x = (b64_val a * 4 + b64_val b div 16) mod 256;
          y = ((b64_val b mod 16) * 16 + b64_val c div 4) mod 256;
          z = ((b64_val c mod 4) * 64 + b64_val d) mod 256
      in if c = CHR ''='' then [x]
         else if d = CHR ''='' then [x, y]
         else x # y # z # b64_decode r)"
| "b64_decode s = []"

fun b64_encode :: "nat list \<Rightarrow> string" where
  "b64_encode [] = []"
| "b64_encode [x] = [b64_sym (x div 4), b64_sym ((x mod 4) * 16), CHR ''='', CHR ''='']"
| "b64_encode [x, y] =
     [b64_sym (x div 4), b64_sym ((x mod 4) * 16 + y div 16), b64_sym ((y mod 16) * 4), CHR ''='']"
| "b64_encode (x # y # z # r) =
     b64_sym (x div 4) # b64_sym ((x mod 4) * 16 + y div 16)
       # b64_sym ((y mod 16) * 4 + z div 64) # b64_sym (z mod 64) # b64_encode r"

text \<open>The bytes of a string in UTF-8, for code units up to 255.\<close>

definition utf8 :: "string \<Rightarrow> nat list" where
  "utf8 s = concat (map (\<lambda>c. let n = of_char c :: nat
                              in if n < 128 then [n] else [192 + n div 64, 128 + n mod 64]) s)"

section \<open>NetSuiteService\<close>

subsection \<open>Requests, responses and the state of an instance\<close>

datatype payload =
    PText string
  | PForm "(string \<times> string) list"
  | PJson json
  | PObject "(string \<times> string) list"

record request =
  req_url :: string
  req_method :: string
  req_headers :: "(string \<times> string) list"
  req_body :: "payload option"

text \<open>
  A response: \<open>json_body\<close> is what \<open>response.json()\<close> resolves to, \<open>None\<close> when it
  rejects; \<open>text_body\<close> is what \<open>response.text()\<close> resolves to.
\<close>

record response =
  status :: nat
  statusText :: string
  text_body :: string
  json_body :: "json option"

datatype fetch_result = Rejected | Resolved response

datatype file_data = Bytes "nat list" | Raw string

text \<open>
  What lies outside the service: the remote side answers a request knowing the requests
  sent before it; \<open>resolve\<close> is \<open>path.resolve\<close>; \<open>writable p\<close> says whether
  \<open>fs.writeFile\<close> succeeds on \<open>p\<close>. \<open>other_content v matched\<close> is what Node makes of
  a file content \<open>v\<close> that is not a string: the data that \<open>Buffer.from(v, 'base64')\<close>
  yields when the text of \<open>v\<close> matched the base64 pattern, the data that
  \<open>fs.writeFile\<close> writes for \<open>v\<close> when it did not, or the error that either throws.
\<close>

record env =
  server :: "request list \<Rightarrow> request \<Rightarrow> fetch_result"
  resolve :: "string \<Rightarrow> string \<Rightarrow> string"
  writable :: "string \<Rightarrow> bool"
  other_content :: "json option \<Rightarrow> bool \<Rightarrow> error + file_data"

record service =
  nsAccountId :: string
  nsClientId :: string
  nsClientSecret :: string
  nsState :: "json option"
  nsCode :: "json option"
  nsAccessToken :: "json option"
  nsRefreshToken :: "json option"
  isDebug :: bool
  shouldLogToken :: bool
  nsScript :: "json option"
  nsDeploy :: "json option"

text \<open>
  The instance, the requests that \<open>fetch\<close> has sent and the files written. Console
  output is left out: it decides nothing.
\<close>

record state =
  self :: service
  sent :: "request list"
  files :: "(string \<times> file_data) list"

definition fetch :: "env \<Rightarrow> request \<Rightarrow> state \<Rightarrow> (error + response) \<times> state" where
  "fetch e r st =
     (case server e (sent st) r of
        Rejected \<Rightarrow> (Inl FetchError, st\<lparr>sent := sent st @ [r]\<rparr>)
      | Resolved resp \<Rightarrow> (Inr resp, st\<lparr>sent := sent st @ [r]\<rparr>))"

text \<open>An object literal with a spread: \<open>{...a, ...b}\<close>.\<close>

fun put :: "string \<Rightarrow> string \<Rightarrow> (string \<times> string) list \<Rightarrow> (string \<times> string) list" where
  "put k v [] = [(k, v)]"
| "put k v ((k', v') # xs) = (if k = k' then (k, v) # xs else (k', v') # put k v xs)"

definition spread :: "(string \<times> string) list \<Rightarrow> (string \<times> string) list \<Rightarrow> (string \<times> string) list" where
  "spread a b = foldl (\<lambda>acc (k, v). put k v acc) a b"

subsection \<open>Static fields\<close>

definition nsRedirectUri :: string where
  "nsRedirectUri = ''https://login.live.com/oauth20_desktop.srf''"

definition MAX_RETRIES :: nat where
  "MAX_RETRIES = 3"

text \<open>\<open>nsBase64Regex.test(file)\<close>.\<close>

fun isFileInBase64 :: "string \<Rightarrow> bool" where
  "isFileInBase64 [a, b, c, d] =
     (b64_char a \<and> b64_char b \<and>
      ((c = CHR ''='' \<and> d = CHR ''='') \<or> (b64_char c \<and> (d = CHR ''='' \<or> b64_char d))))"
| "isFileInBase64 (a # b # c # d # r) =
     (b64_char a \<and> b64_char b \<and> b64_char c \<and> b64_char d \<and> isFileInBase64 r)"
| "isFileInBase64 s = False"

subsection \<open>constructor and logout\<close>

record params =
  accountId :: "string option"
  client :: "string option"
  secret :: "string option"
  token :: "json option"
  script :: "json option"
  deploy :: "json option"
  debug :: "json option"
  logToken :: "json option"

definition logout :: "service \<Rightarrow> service" where
  "logout s = s\<lparr>nsState := Some JNull, nsCode := Some JNull,
                nsAccessToken := Some JNull, nsRefreshToken := Some JNull\<rparr>"

text \<open>The warning sign in front of the constructor's messages, as its UTF-8 bytes.\<close>

definition warning_sign :: string where
  "warning_sign = [CHR 0xE2, CHR 0x9A, CHR 0xA0, CHR 0xEF, CHR 0xB8, CHR 0x8F]"

text \<open>
  \<open>given v\<close> is \<open>!v\<close> negated, for a credential that is a string or absent.
  \<open>env_debug\<close> is \<open>process.env.MS_GRAPH_DEBUG\<close>.
\<close>

definition given :: "string option \<Rightarrow> bool" where
  "given v = (case v of None \<Rightarrow> False | Some s \<Rightarrow> s \<noteq> [])"

definition constructor :: "string option \<Rightarrow> params \<Rightarrow> error + service" where
  "constructor env_debug p =
     (if \<not> given (accountId p) then
        Inl (BaseError (warning_sign @ '' The NetSuite Account ID is required!''))
      else if \<not> given (client p) then
        Inl (BaseError (warning_sign @ '' The NetSuite APP ClientID is required!''))
      else if \<not> given (secret p) then
        Inl (BaseError (warning_sign @ '' The NetSuite APP ClientSecret is required!''))
      else
        Inr ((logout
               \<lparr>nsAccountId = the (accountId p), nsClientId = the (client p),
                nsClientSecret = the (secret p),
                nsState = None, nsCode = None, nsAccessToken = None, nsRefreshToken = None,
                isDebug = False, shouldLogToken = False,
                nsScript = script p,
                nsDeploy = (if truthy (deploy p) then deploy p else Some (JNum ''1''))\<rparr>)
             \<lparr>nsAccessToken := token p,
              isDebug := (truthy (debug p) \<or> env_debug = Some ''true''),
              shouldLogToken := (logToken p = Some (JStr ''true''))\<rparr>))"

subsection \<open>The token endpoint\<close>

definition getApiUrl :: "service \<Rightarrow> string" where
  "getApiUrl s =
     replace_percent_s ''https://'' ''.suitetalk.api.netsuite.com/services/rest'' (nsAccountId s)"

definition getTokenUrl :: "service \<Rightarrow> string" where
  "getTokenUrl s = getApiUrl s @ ''/auth/oauth2/v1/token''"

definition getClientAuth :: "service \<Rightarrow> string" where
  "getClientAuth s = b64_encode (utf8 (nsClientId s @ '':'' @ nsClientSecret s))"

definition setAuthorizationTokens :: "json \<Rightarrow> service \<Rightarrow> error + service" where
  "setAuthorizationTokens authorization s =
     (case get_field (Some authorization) ''access_token'' of
        Inl err \<Rightarrow> Inl err
      | Inr a \<Rightarrow>
          (case get_field (Some authorization) ''refresh_token'' of
             Inl err \<Rightarrow> Inl err
           | Inr r \<Rightarrow> Inr (s\<lparr>nsAccessToken := a, nsRefreshToken := r\<rparr>)))"

definition tokenKey :: "string \<Rightarrow> string" where
  "tokenKey grant_type = (if grant_type = ''refresh_token'' then grant_type else ''code'')"

definition token_form :: "string \<Rightarrow> string \<Rightarrow> (string \<times> string) list" where
  "token_form t grant_type =
     [(''grant_type'', grant_type)]
     @ (if grant_type = ''authorization_code'' then [(''redirect_uri'', nsRedirectUri)] else [])
     @ [(tokenKey grant_type, t)]"

definition token_request :: "service \<Rightarrow> string \<Rightarrow> string \<Rightarrow> request" where
  "token_request s t grant_type =
     \<lparr>req_url = getTokenUrl s, req_method = ''POST'',
      req_headers = [(''Content-Type'', ''application/x-www-form-urlencoded''),
                     (''Authorization'', ''Basic '' @ getClientAuth s)],
      req_body = Some (PForm (token_form t grant_type))\<rparr>"

text \<open>
  The error thrown on a response that carries an \<open>error\<close>:
  \<open>new BaseError(authorization.error?.message || 'Error in get authorization token')\<close>.
\<close>

definition authorization_error :: "json option \<Rightarrow> error" where
  "authorization_error er =
     (case get_field er ''message'' of
        Inl err \<Rightarrow> err
      | Inr m \<Rightarrow>
          if truthy m then (case text_of m of None \<Rightarrow> TypeError | Some t \<Rightarrow> BaseError t)
          else BaseError ''Error in get authorization token'')"

text \<open>The body of the \<open>try\<close> block of \<open>#requestAuthorizationToken\<close>.\<close>

definition requestAuthorizationToken_try ::
  "env \<Rightarrow> json option \<Rightarrow> string \<Rightarrow> state \<Rightarrow> (error + json) \<times> state" where
  "requestAuthorizationToken_try e tok grant_type st =
     (case text_of tok of
        None \<Rightarrow> (Inl TypeError, st)
      | Some t \<Rightarrow>
          (case fetch e (token_request (self st) t grant_type) st of
             (Inl err, st') \<Rightarrow> (Inl err, st')
           | (Inr r, st') \<Rightarrow>
               (case json_body r of
                  None \<Rightarrow> (Inl SyntaxError, st')
                | Some authorization \<Rightarrow>
                    (case get_field (Some authorization) ''error'' of
                       Inl err \<Rightarrow> (Inl err, st')
                     | Inr er \<Rightarrow>
                         if truthy er then (Inl (authorization_error er), st')
                         else
                           (case setAuthorizationTokens authorization (self st') of
                              Inl err \<Rightarrow> (Inl err, st')
                            | Inr s' \<Rightarrow> (Inr authorization, st'\<lparr>self := s'\<rparr>))))))"

text \<open>The whole function: whatever the \<open>try\<close> block throws, the \<open>catch\<close> throws anew.\<close>

definition requestAuthorizationToken ::
  "env \<Rightarrow> json option \<Rightarrow> string \<Rightarrow> state \<Rightarrow> (error + json) \<times> state" where
  "requestAuthorizationToken e tok grant_type st =
     (case requestAuthorizationToken_try e tok grant_type st of
        (Inl err, st') \<Rightarrow>
          (Inl (BaseError (''Cannot get the NetSuite authorization '' @ tokenKey grant_type)), st')
      | (Inr authorization, st') \<Rightarrow> (Inr authorization, st'))"

text \<open>
  \<open>#refreshToken\<close> returns the promise of \<open>#requestAuthorizationToken\<close> without awaiting
  it, so its own \<open>catch\<close> never sees a rejection and the error passes through as it is.
\<close>

definition refreshToken :: "env \<Rightarrow> state \<Rightarrow> (error + json) \<times> state" where
  "refreshToken e st = requestAuthorizationToken e (nsRefreshToken (self st)) ''refresh_token'' st"

subsection \<open>The request executor\<close>

definition getAuthHeader :: "service \<Rightarrow> error + (string \<times> string) list" where
  "getAuthHeader s =
     (case text_of (nsAccessToken s) of
        None \<Rightarrow> Inl TypeError
      | Some t \<Rightarrow> Inr [(''Authorization'', ''Bearer '' @ t)])"

definition internalRequest ::
  "env \<Rightarrow> string \<Rightarrow> string \<Rightarrow> payload option \<Rightarrow> (string \<times> string) list \<Rightarrow> state
     \<Rightarrow> (error + response) \<times> state" where
  "internalRequest e url method body headers st =
     (case getAuthHeader (self st) of
        Inl err \<Rightarrow> (Inl err, st)
      | Inr auth \<Rightarrow>
          fetch e \<lparr>req_url = url, req_method = method,
                   req_headers = spread auth headers, req_body = body\<rparr> st)"

text \<open>The end of \<open>#renewTokenWithNeeded\<close>, from the second test of the status on.\<close>

definition parse_response :: "response \<Rightarrow> error + json" where
  "parse_response r =
     (if status r = 401 then Inl (BaseError (statusText r))
      else (case json_body r of None \<Rightarrow> Inl SyntaxError | Some v \<Rightarrow> Inr v))"

definition renewTokenWithNeeded ::
  "env \<Rightarrow> string \<Rightarrow> string \<Rightarrow> payload option \<Rightarrow> (string \<times> string) list \<Rightarrow> state
     \<Rightarrow> (error + json) \<times> state" where
  "renewTokenWithNeeded e url method body headers st =
     (case internalRequest e url method body headers st of
        (Inl err, st1) \<Rightarrow> (Inl err, st1)
      | (Inr r1, st1) \<Rightarrow>
          if status r1 = 401 then
            (case refreshToken e st1 of
               (Inl err, st2) \<Rightarrow> (Inl err, st2)
             | (Inr a, st2) \<Rightarrow>
                 (case internalRequest e url method body headers st2 of
                    (Inl err, st3) \<Rightarrow> (Inl err, st3)
                  | (Inr r2, st3) \<Rightarrow> (parse_response r2, st3)))
          else (parse_response r1, st1))"

text \<open>
  One pass through the body of the loop of \<open>#requestApi\<close>: it ends in \<open>break\<close> with the
  response, in \<open>return null\<close>, or in the \<open>catch\<close> with the error caught.
\<close>

datatype pass = Break json | Return json | Caught error

definition marker :: string where
  "marker = ''IO error during request payload read''"

definition requestApi_try ::
  "env \<Rightarrow> string \<Rightarrow> string \<Rightarrow> payload option \<Rightarrow> (string \<times> string) list \<Rightarrow> state
     \<Rightarrow> pass \<times> state" where
  "requestApi_try e url method body headers st =
     (case renewTokenWithNeeded e (getApiUrl (self st) @ url) method body headers st of
        (Inl err, st') \<Rightarrow> (Caught err, st')
      | (Inr response, st') \<Rightarrow>
          (case get_field (Some response) ''error'' of
             Inl err \<Rightarrow> (Caught err, st')
           | Inr er \<Rightarrow>
               if truthy er then
                 (case get_field er ''message'' of
                    Inl err \<Rightarrow> (Caught err, st')
                  | Inr m \<Rightarrow>
                      (case text_of m of
                         None \<Rightarrow> (Caught TypeError, st')
                       | Some t \<Rightarrow>
                           if contains marker t then (Return JNull, st')
                           else (Caught (BaseError (''Error in request ['' @ method @ '']: '' @ url)),
                                 st')))
               else (Break response, st')))"

text \<open>
  The loop together with the two statements after it: a \<open>break\<close> leaves with
  \<open>retry \<le> MAX_RETRIES\<close>, so that the response is returned; the condition of the loop
  fails with \<open>retry > MAX_RETRIES\<close>, so that the error is thrown.
\<close>

function requestApi_loop ::
  "env \<Rightarrow> string \<Rightarrow> string \<Rightarrow> payload option \<Rightarrow> (string \<times> string) list \<Rightarrow> nat \<Rightarrow> state
     \<Rightarrow> (error + json) \<times> state" where
  "requestApi_loop e url method body headers retry st =
     (if retry \<le> MAX_RETRIES then
        (case requestApi_try e url method body headers st of
           (Break response, st') \<Rightarrow> (Inr response, st')
         | (Return v, st') \<Rightarrow> (Inr v, st')
         | (Caught err, st') \<Rightarrow> requestApi_loop e url method body headers (retry + 1) st')
      else (Inl (BaseError (''Max retries error in request ['' @ method @ '']: '' @ url)), st))"
  by pat_completeness auto
termination
  by (relation "measure (\<lambda>(e, url, method, body, headers, retry, st). Suc MAX_RETRIES - retry)")
     auto

text \<open>\<open>headers = {}\<close>: the default of a parameter that is \<open>undefined\<close>.\<close>

definition default_headers :: "(string \<times> string) list option \<Rightarrow> (string \<times> string) list" where
  "default_headers headers = (case headers of None \<Rightarrow> [] | Some h \<Rightarrow> h)"

definition requestApi ::
  "env \<Rightarrow> string \<Rightarrow> string \<Rightarrow> payload option \<Rightarrow> (string \<times> string) list option \<Rightarrow> state
     \<Rightarrow> (error + json) \<times> state" where
  "requestApi e url method body headers st =
     requestApi_loop e url method body (default_headers headers) 1 st"

definition requestGet ::
  "env \<Rightarrow> string \<Rightarrow> (string \<times> string) list option \<Rightarrow> state \<Rightarrow> (error + json) \<times> state" where
  "requestGet e url headers st = requestApi e url ''GET'' (map_option PObject headers) None st"

definition requestPost ::
  "env \<Rightarrow> string \<Rightarrow> payload option \<Rightarrow> (string \<times> string) list option \<Rightarrow> state
     \<Rightarrow> (error + json) \<times> state" where
  "requestPost e url body headers st = requestApi e url ''POST'' body headers st"

definition requestPut ::
  "env \<Rightarrow> string \<Rightarrow> payload option \<Rightarrow> (string \<times> string) list option \<Rightarrow> state
     \<Rightarrow> (error + json) \<times> state" where
  "requestPut e url body headers st = requestApi e url ''PUT'' body headers st"

definition requestDelete ::
  "env \<Rightarrow> string \<Rightarrow> payload option \<Rightarrow> (string \<times> string) list option \<Rightarrow> state
     \<Rightarrow> (error + json) \<times> state" where
  "requestDelete e url body headers st = requestApi e url ''DELETE'' body headers st"

subsection \<open>downloadFile\<close>

definition getRestletUrl :: "service \<Rightarrow> error + string" where
  "getRestletUrl s =
     (case text_of (nsScript s) of
        None \<Rightarrow> Inl TypeError
      | Some sc \<Rightarrow>
          (case text_of (nsDeploy s) of
             None \<Rightarrow> Inl TypeError
           | Some d \<Rightarrow>
               Inr (replace_percent_s ''https://''
                      ''.restlets.api.netsuite.com/app/site/hosting/restlet.nl'' (nsAccountId s)
                    @ ''?script='' @ sc @ ''&deploy='' @ d)))"

text \<open>
  \<open>fileObj.info.name\<close>, which \<open>normalize\<close> takes: on anything but a string
  \<open>text.replace\<close> is not a function, and the call throws a \<open>TypeError\<close>.
\<close>

definition file_name :: "json \<Rightarrow> error + string" where
  "file_name fileObj =
     (case get_field (Some fileObj) ''info'' of
        Inl err \<Rightarrow> Inl err
      | Inr info \<Rightarrow>
          (case get_field info ''name'' of
             Inl err \<Rightarrow> Inl err
           | Inr (Some (JStr n)) \<Rightarrow> Inr n
           | Inr v \<Rightarrow> Inl TypeError))"

text \<open>
  The data written: \<open>isFileInBase64\<close> tests the text of \<open>fileObj.content\<close>; a string
  is decoded when it matches and written as it is when it does not; any other content
  is left to Node.
\<close>

definition contentFile :: "env \<Rightarrow> json option \<Rightarrow> error + file_data" where
  "contentFile e content =
     (case text_of content of
        None \<Rightarrow> Inl TypeError
      | Some t \<Rightarrow>
          (case content of
             Some (JStr c) \<Rightarrow> Inr (if isFileInBase64 c then Bytes (b64_decode c) else Raw c)
           | v \<Rightarrow> other_content e v (isFileInBase64 t)))"

definition download_request :: "string \<Rightarrow> (string \<times> string) list \<Rightarrow> json \<Rightarrow> request" where
  "download_request downloadUrl auth fileId =
     \<lparr>req_url = downloadUrl, req_method = ''POST'',
      req_headers = spread [(''Content-Type'', ''application/json'')] auth,
      req_body = Some (PJson (JObj [(''fileId'', fileId)]))\<rparr>"

text \<open>The body of the \<open>try\<close> block of \<open>downloadFile\<close>.\<close>

definition downloadFile_try :: "env \<Rightarrow> json \<Rightarrow> string \<Rightarrow> state \<Rightarrow> (error + string) \<times> state" where
  "downloadFile_try e fileId folderPath st =
     (case getRestletUrl (self st) of
        Inl err \<Rightarrow> (Inl err, st)
      | Inr downloadUrl \<Rightarrow>
          (case getAuthHeader (self st) of
             Inl err \<Rightarrow> (Inl err, st)
           | Inr auth \<Rightarrow>
               (case fetch e (download_request downloadUrl auth fileId) st of
                  (Inl err, st') \<Rightarrow> (Inl err, st')
                | (Inr r, st') \<Rightarrow>
                    if \<not> (200 \<le> status r \<and> status r \<le> 299) then
                      (Inl (BaseError (''Cannot download the file: '' @ downloadUrl @ '' - ''
                                        @ statusText r @ '' - '' @ text_body r)), st')
                    else
                      (case json_body r of
                         None \<Rightarrow> (Inl SyntaxError, st')
                       | Some fileObj \<Rightarrow>
                           (case get_field (Some fileObj) ''content'' of
                              Inl err \<Rightarrow> (Inl err, st')
                            | Inr content \<Rightarrow>
                                (case contentFile e content of
                                   Inl err \<Rightarrow> (Inl err, st')
                                 | Inr d \<Rightarrow>
                                     (case file_name fileObj of
                                        Inl err \<Rightarrow> (Inl err, st')
                                      | Inr n \<Rightarrow>
                                          (let downloadPath = resolve e folderPath (normalize n)
                                           in if writable e downloadPath then
                                                (Inr downloadPath,
                                                 st'\<lparr>files := files st' @ [(downloadPath, d)]\<rparr>)
                                              else (Inl WriteError, st')))))))))"

definition downloadFile :: "env \<Rightarrow> json \<Rightarrow> string \<Rightarrow> state \<Rightarrow> (error + string) \<times> state" where
  "downloadFile e fileId folderPath st =
     (if \<not> truthy (nsScript (self st)) then (Inl (BaseError ''Script is required!''), st)
      else
        (case downloadFile_try e fileId folderPath st of
           (Inl err, st') \<Rightarrow>
             (case to_string fileId of
                None \<Rightarrow> (Inl TypeError, st')
              | Some t \<Rightarrow> (Inl (BaseError (''Cannot download the file '' @ t)), st'))
         | (Inr downloadPath, st') \<Rightarrow> (Inr downloadPath, st')))"

section \<open>Notions used to state the properties\<close>

text \<open>A match of the link pattern somewhere in the text.\<close>

fun has_link :: "string \<Rightarrow> bool" where
  "has_link [] = False"
| "has_link (c # cs) =
     (case link_match (c # cs) of Some r \<Rightarrow> True | None \<Rightarrow> has_link cs)"

text \<open>
  The two halves of \<open>normalize\<close>: the replacements with the flag \<open>g\<close>, which act on
  every character, and the ones without it, which act on the first match only.
\<close>

definition char_map :: "string \<Rightarrow> string" where
  "char_map s =
     replace_char_all (CHR ''&'') ''and''
       (replace_char_all (CHR 0x0A) '' - ''
         (filter (\<lambda>c. c \<noteq> CHR 0x0D \<and> c \<noteq> CHR 0x09)
           (filter (\<lambda>c. c \<notin> reserved)
             (filter (\<lambda>c. c \<noteq> CHR ''*'') s))))"

definition char_stage :: "string \<Rightarrow> string" where
  "char_stage text =
     replace_char_all (CHR ''&'') ''and''
       (replace_char_all (CHR 0x0A) '' - ''
         (filter (\<lambda>c. c \<noteq> CHR 0x0D \<and> c \<noteq> CHR 0x09)
           (filter (\<lambda>c. c \<notin> reserved)
             (filter (\<lambda>c. c \<noteq> CHR ''*'')
               (removeLinks text)))))"

definition tail_stage :: "string \<Rightarrow> string" where
  "tail_stage s = trim (collapse_space (drop_edge_dot (drop_tilde (collapse_dots s))))"

text \<open>The characters that the first half removes or replaces.\<close>

definition special :: "char set" where
  "special = reserved \<union> {CHR 0x0D, CHR 0x09, CHR 0x0A, CHR ''&''}"

text \<open>Two neighbours that both satisfy \<open>P\<close>.\<close>

fun adjacent :: "(char \<Rightarrow> bool) \<Rightarrow> string \<Rightarrow> bool" where
  "adjacent P (a # b # r) = ((P a \<and> P b) \<or> adjacent P (b # r))"
| "adjacent P _ = False"

text \<open>
  A text on which the second half has nothing left to do: no tilde or dot in front, no
  dot at the end, no two dots in a row, and no white space but single blanks.
\<close>

definition settled :: "string \<Rightarrow> bool" where
  "settled y =
     ((y = [] \<or> (hd y \<noteq> CHR ''~'' \<and> hd y \<noteq> CHR ''.'' \<and> last y \<noteq> CHR ''.''))
      \<and> \<not> adjacent (\<lambda>c. c = CHR ''.'') y
      \<and> \<not> adjacent js_space y
      \<and> list_all (\<lambda>c. js_space c \<longrightarrow> c = CHR '' '') y)"

text \<open>A character that no step of \<open>normalize\<close> touches.\<close>

definition plain :: "char \<Rightarrow> bool" where
  "plain c = (c \<notin> special \<and> c \<noteq> CHR ''.'' \<and> c \<noteq> CHR ''~'' \<and> \<not> js_space c)"

text \<open>A text that \<open>trim\<close> leaves as it is.\<close>

definition trimmed :: "string \<Rightarrow> bool" where
  "trimmed s = (case s of [] \<Rightarrow> True | c # cs \<Rightarrow> \<not> js_space c \<and> \<not> js_space (last s))"

text \<open>
  The base64 pattern in the words of the regular expression: groups of four base64
  characters, then a last group of two base64 characters and two padding characters, or
  of three and one, or of four.
\<close>

definition last_group :: "string \<Rightarrow> bool" where
  "last_group f =
     ((\<exists>a b. f = [a, b, CHR ''='', CHR ''=''] \<and> b64_char a \<and> b64_char b)
      \<or> (\<exists>a b c. f = [a, b, c, CHR ''=''] \<and> b64_char a \<and> b64_char b \<and> b64_char c)
      \<or> (length f = 4 \<and> list_all b64_char f))"

definition base64_pattern :: "string \<Rightarrow> bool" where
  "base64_pattern s =
     (\<exists>groups f. s = concat groups @ f
        \<and> list_all (\<lambda>g. length g = 4 \<and> list_all b64_char g) groups
        \<and> last_group f)"

text \<open>
  The error payload that a pass of the loop meets: the text of the message of a truthy
  \<open>error\<close> field in the parsed body of the attempt, with the state after the attempt.
\<close>

definition error_message ::
  "env \<Rightarrow> string \<Rightarrow> string \<Rightarrow> payload option \<Rightarrow> (string \<times> string) list \<Rightarrow> state
     \<Rightarrow> (string \<times> state) option" where
  "error_message e url method body headers st =
     (case renewTokenWithNeeded e (getApiUrl (self st) @ url) method body headers st of
        (Inl err, st') \<Rightarrow> None
      | (Inr response, st') \<Rightarrow>
          (case get_field (Some response) ''error'' of
             Inl err \<Rightarrow> None
           | Inr er \<Rightarrow>
               if truthy er then
                 (case get_field er ''message'' of
                    Inl err \<Rightarrow> None
                  | Inr m \<Rightarrow> (case text_of m of None \<Rightarrow> None | Some t \<Rightarrow> Some (t, st')))
               else None))"

text \<open>The number of passes through the body of the loop of \<open>#requestApi\<close>, by the loop's own recursion.\<close>

function requestApi_passes ::
  "env \<Rightarrow> string \<Rightarrow> string \<Rightarrow> payload option \<Rightarrow> (string \<times> string) list \<Rightarrow> nat \<Rightarrow> state \<Rightarrow> nat" where
  "requestApi_passes e url method body headers retry st =
     (if retry \<le> MAX_RETRIES then
        (case requestApi_try e url method body headers st of
           (Break response, st') \<Rightarrow> 1
         | (Return v, st') \<Rightarrow> 1
         | (Caught err, st') \<Rightarrow> Suc (requestApi_passes e url method body headers (retry + 1) st'))
      else 0)"
  by pat_completeness auto
termination
  by (relation "measure (\<lambda>(e, url, method, body, headers, retry, st). Suc MAX_RETRIES - retry)")
     auto

text \<open>The request that \<open>#internalRequest\<close> hands to \<open>fetch\<close>.\<close>

definition api_request ::
  "(string \<times> string) list \<Rightarrow> string \<Rightarrow> string \<Rightarrow> payload option \<Rightarrow> (string \<times> string) list \<Rightarrow> request" where
  "api_request auth url method body headers =
     \<lparr>req_url = url, req_method = method, req_headers = spread auth headers, req_body = body\<rparr>"

section \<open>Sample instances\<close>

text \<open>An instance for the account of the repository's \<open>index.js\<close>, with a token supplied.\<close>

definition sample_params :: params where
  "sample_params =
     \<lparr>accountId = Some ''6132245'', client = Some ''id'', secret = Some ''key'',
      token = Some (JStr ''A''), script = Some (JNum ''1054''), deploy = Some (JNum ''2''),
      debug = Some (JBool True), logToken = Some (JStr ''true'')\<rparr>"

definition sample_service :: service where
  "sample_service =
     \<lparr>nsAccountId = ''6132245'', nsClientId = ''id'', nsClientSecret = ''key'',
      nsState = Some JNull, nsCode = Some JNull,
      nsAccessToken = Some (JStr ''A''), nsRefreshToken = Some JNull,
      isDebug = True, shouldLogToken = True,
      nsScript = Some (JNum ''1054''), nsDeploy = Some (JNum ''2'')\<rparr>"

definition sample_state :: state where
  "sample_state = \<lparr>self = sample_service, sent = [], files = []\<rparr>"

definition sample_get :: request where
  "sample_get =
     \<lparr>req_url = ''https://6132245.suitetalk.api.netsuite.com/services/rest/record/v1/account'',
      req_method = ''GET'', req_headers = [(''Authorization'', ''Bearer A'')], req_body = None\<rparr>"

definition sample_download :: request where
  "sample_download =
     \<lparr>req_url = ''https://6132245.restlets.api.netsuite.com/app/site/hosting/restlet.nl?script=1054&deploy=2'',
      req_method = ''POST'',
      req_headers = [(''Content-Type'', ''application/json''), (''Authorization'', ''Bearer A'')],
      req_body = Some (PJson (JObj [(''fileId'', JNum ''524171'')]))\<rparr>"

text \<open>Replies of the remote side.\<close>

definition account_reply :: response where
  "account_reply =
     \<lparr>status = 200, statusText = ''OK'', text_body = [], json_body = Some (JObj [(''items'', JArr [])])\<rparr>"

definition error_reply :: response where
  "error_reply =
     \<lparr>status = 200, statusText = ''OK'', text_body = [],
      json_body = Some (JObj [(''error'', JObj [(''message'', JStr ''Invalid search query'')])])\<rparr>"

definition soft_reply :: response where
  "soft_reply =
     \<lparr>status = 200, statusText = ''OK'', text_body = [],
      json_body = Some (JObj [(''error'',
         JObj [(''message'', JStr ''Unexpected: IO error during request payload read.'')])])\<rparr>"

definition grant_reply :: response where
  "grant_reply =
     \<lparr>status = 400, statusText = ''Bad Request'', text_body = [],
      json_body = Some (JObj [(''error'', JObj [(''message'', JStr ''invalid_grant'')])])\<rparr>"

definition expired_reply :: response where
  "expired_reply = \<lparr>status = 401, statusText = ''Unauthorized'', text_body = [], json_body = None\<rparr>"

definition token_reply :: response where
  "token_reply =
     \<lparr>status = 200, statusText = ''OK'', text_body = [],
      json_body = Some (JObj [(''access_token'', JStr ''B''), (''refresh_token'', JStr ''R'')])\<rparr>"

definition file_reply :: response where
  "file_reply =
     \<lparr>status = 200, statusText = ''OK'', text_body = [],
      json_body = Some (JObj [(''content'', JStr ''aGk=''),
                              (''info'', JObj [(''name'', JStr ''a/b: notes.txt'')])])\<rparr>"

definition text_reply :: response where
  "text_reply =
     \<lparr>status = 200, statusText = ''OK'', text_body = [],
      json_body = Some (JObj [(''content'', JStr ''id;name''),
                              (''info'', JObj [(''name'', JStr ''list.csv'')])])\<rparr>"

text \<open>
  Remote sides: out of reach; failing the first request only; answering with an
  application error, with the transient or an application error after some failed
  requests, with a refused
  grant; answering 401 with the token endpoint out of reach; answering 401 until the
  token is renewed; serving a file in base64, and a file of plain text.
\<close>

definition server_down :: env where
  "server_down = \<lparr>server = (\<lambda>h r. Rejected), resolve = (\<lambda>d f. d @ ''/'' @ f), writable = (\<lambda>p. True),
      other_content = (\<lambda>v matched. Inl TypeError)\<rparr>"

definition server_flaky :: env where
  "server_flaky =
     \<lparr>server = (\<lambda>h r. if h = [] then Rejected else Resolved account_reply),
      resolve = (\<lambda>d f. d @ ''/'' @ f), writable = (\<lambda>p. True),
      other_content = (\<lambda>v matched. Inl TypeError)\<rparr>"

definition server_error :: env where
  "server_error = \<lparr>server = (\<lambda>h r. Resolved error_reply), resolve = (\<lambda>d f. d @ ''/'' @ f),
                    writable = (\<lambda>p. True),
      other_content = (\<lambda>v matched. Inl TypeError)\<rparr>"

definition server_soft_after :: "nat \<Rightarrow> env" where
  "server_soft_after n =
     \<lparr>server = (\<lambda>h r. if length h < n then Rejected else Resolved soft_reply),
      resolve = (\<lambda>d f. d @ ''/'' @ f), writable = (\<lambda>p. True),
      other_content = (\<lambda>v matched. Inl TypeError)\<rparr>"

definition server_error_after :: "nat \<Rightarrow> env" where
  "server_error_after n =
     \<lparr>server = (\<lambda>h r. if length h < n then Rejected else Resolved error_reply),
      resolve = (\<lambda>d f. d @ ''/'' @ f), writable = (\<lambda>p. True),
      other_content = (\<lambda>v matched. Inl TypeError)\<rparr>"

definition server_grant :: env where
  "server_grant = \<lparr>server = (\<lambda>h r. Resolved grant_reply), resolve = (\<lambda>d f. d @ ''/'' @ f),
                    writable = (\<lambda>p. True),
      other_content = (\<lambda>v matched. Inl TypeError)\<rparr>"

definition server_expired :: env where
  "server_expired =
     \<lparr>server = (\<lambda>h r. if req_method r = ''POST'' then Rejected else Resolved expired_reply),
      resolve = (\<lambda>d f. d @ ''/'' @ f), writable = (\<lambda>p. True),
      other_content = (\<lambda>v matched. Inl TypeError)\<rparr>"

definition server_renew :: env where
  "server_renew =
     \<lparr>server = (\<lambda>h r. if req_method r = ''POST'' then Resolved token_reply
                        else if req_headers r = [(''Authorization'', ''Bearer B'')] then Resolved account_reply
                        else Resolved expired_reply),
      resolve = (\<lambda>d f. d @ ''/'' @ f), writable = (\<lambda>p. True),
      other_content = (\<lambda>v matched. Inl TypeError)\<rparr>"

definition server_file :: env where
  "server_file = \<lparr>server = (\<lambda>h r. Resolved file_reply), resolve = (\<lambda>d f. d @ ''/'' @ f),
                   writable = (\<lambda>p. True),
      other_content = (\<lambda>v matched. Inl TypeError)\<rparr>"

definition server_text :: env where
  "server_text = \<lparr>server = (\<lambda>h r. Resolved text_reply), resolve = (\<lambda>d f. d @ ''/'' @ f),
                   writable = (\<lambda>p. True), other_content = (\<lambda>v matched. Inl TypeError)\<rparr>"

text \<open>The inputs of the repository's test suite, and the results it expects.\<close>

definition test_samples :: "string list" where
  "test_samples =
     [''~test'', ''.test'', ''test.'', ''te...st'', ''~Tilde'', ''Number sign (#)'',
      ''Percent (%)'', ''Ampersand (&)'', ''Asterisk (*)'', ''Braces ({ })'', ''Backslash ()'',
      ''Colon (:)'', ''Angle brackets (< >)'', ''Question mark (?)'', ''Slash (/)'',
      ''Plus sign (+)'', ''Pipe (|)'', ''Quotation mark ('' @ [CHR 0x22] @ '')'',
      ''Manteca  https://data-manteca.opendata.arcgis.com/datasets/437728d82d744e9b91d0c2202ef545dc_28/explore?location=37.812660%2C-121.260275%2C18.95'',
      ''Google http://google.com.br WebSite'']"

definition test_expected :: "string list" where
  "test_expected =
     [''test'', ''test'', ''test'', ''te.st'', ''Tilde'', ''Number sign (#)'',
      ''Percent ()'', ''Ampersand (and)'', ''Asterisk ()'', ''Braces ( )'', ''Backslash ()'',
      ''Colon ()'', ''Angle brackets ( )'', ''Question mark ()'', ''Slash ()'',
      ''Plus sign ()'', ''Pipe ()'', ''Quotation mark ()'',
      ''Manteca'', ''Google WebSite'']"

section \<open>Properties of NormalizeUtils\<close>

lemma strip_prefix_Some: "strip_prefix p s = Some r \<longleftrightarrow> s = p @ r"
  by (induction p s rule: strip_prefix.induct) auto

lemma strip_prefix_None: "strip_prefix p s = None \<longleftrightarrow> \<not> prefix p s"
  by (induction p s rule: strip_prefix.induct) auto

lemma match_scheme_Some:
  "match_scheme s = Some r \<longleftrightarrow> s = ''https://'' @ r \<or> s = ''http://'' @ r"
proof (cases "strip_prefix ''https://'' s")
  case None
  then have "\<not> prefix ''https://'' s" unfolding strip_prefix_None .
  then have "s \<noteq> ''https://'' @ r" using prefixI by blast
  with None show ?thesis by (simp only: match_scheme_def option.case strip_prefix_Some) simp
next
  case (Some q)
  then have s: "s = ''https://'' @ q" unfolding strip_prefix_Some .
  then have "s \<noteq> ''http://'' @ r" by simp
  with Some s show ?thesis by (simp only: match_scheme_def option.case) auto
qed

lemma link_match_Some:
  "link_match s = Some t \<longleftrightarrow>
     (\<exists>r. match_scheme s = Some r \<and> takeWhile link_char r \<noteq> [] \<and> t = dropWhile link_char r)"
  by (cases "match_scheme s") (auto simp: link_match_def)

lemma link_match_None:
  "link_match s = None \<longleftrightarrow>
     (\<forall>r. match_scheme s = Some r \<longrightarrow> takeWhile link_char r = [])"
  by (cases "match_scheme s") (auto simp: link_match_def)

lemma link_match_rest: "link_match s = Some t \<Longrightarrow> t = [] \<or> \<not> link_char (hd t)"
  by (auto simp: link_match_Some hd_dropWhile)

lemma removeLinks_stop: "s = [] \<or> \<not> link_char (hd s) \<Longrightarrow> removeLinks s = [] \<or> \<not> link_char (hd (removeLinks s))"
proof (cases s)
  case Nil then show ?thesis by simp
next
  case (Cons c cs)
  assume "s = [] \<or> \<not> link_char (hd s)"
  with Cons have c: "\<not> link_char c" by simp
  then have "match_scheme (c # cs) = None"
    by (cases "match_scheme (c # cs)") (auto simp: match_scheme_Some link_char_def)
  then have "link_match (c # cs) = None" by (simp add: link_match_def)
  with Cons c show ?thesis by simp
qed

lemma removeLinks_prefix:
  "removeLinks s = p @ r \<Longrightarrow> \<forall>c\<in>set p. link_char c \<Longrightarrow> prefix p s"
proof (induction s arbitrary: p r rule: removeLinks.induct)
  case 1
  then show ?case by simp
next
  case (2 c cs)
  show ?case
  proof (cases "link_match (c # cs)")
    case None
    with "2.prems" have eq: "c # removeLinks cs = p @ r" by simp
    show ?thesis
    proof (cases p)
      case Nil then show ?thesis by simp
    next
      case (Cons x p')
      with eq have "x = c" and "removeLinks cs = p' @ r" by simp_all
      moreover from Cons "2.prems" have "\<forall>c\<in>set p'. link_char c" by simp
      ultimately have "prefix p' cs" using "2.IH"(1)[OF None] by blast
      with Cons \<open>x = c\<close> show ?thesis by simp
    qed
  next
    case (Some rest)
    with "2.prems" have eq: "removeLinks rest = p @ r" by simp
    from Some have "rest = [] \<or> \<not> link_char (hd rest)" by (rule link_match_rest)
    then have "removeLinks rest = [] \<or> \<not> link_char (hd (removeLinks rest))"
      by (rule removeLinks_stop)
    with eq "2.prems"(2) have "p = []" by (cases p) auto
    then show ?thesis by simp
  qed
qed

lemma link_match_start:
  "link_match s \<noteq> None \<longleftrightarrow>
     (\<exists>d rest. link_char d \<and> (s = ''https://'' @ d # rest \<or> s = ''http://'' @ d # rest))"
proof
  assume "link_match s \<noteq> None"
  then obtain r where r: "match_scheme s = Some r" and ne: "takeWhile link_char r \<noteq> []"
    by (auto simp: link_match_Some)
  from ne obtain d rest where "r = d # rest" "link_char d"
    by (cases r) (auto split: if_splits)
  with r show "\<exists>d rest. link_char d \<and> (s = ''https://'' @ d # rest \<or> s = ''http://'' @ d # rest)"
    by (auto simp: match_scheme_Some)
next
  assume "\<exists>d rest. link_char d \<and> (s = ''https://'' @ d # rest \<or> s = ''http://'' @ d # rest)"
  then obtain d rest where d: "link_char d"
    and s: "s = ''https://'' @ d # rest \<or> s = ''http://'' @ d # rest" by blast
  from s have "match_scheme s = Some (d # rest)" by (simp only: match_scheme_Some)
  with d show "link_match s \<noteq> None" by (simp add: link_match_def)
qed

lemma link_match_keep:
  assumes "link_match (c # cs) = None"
  shows "link_match (c # removeLinks cs) = None"
proof (rule ccontr)
  assume "link_match (c # removeLinks cs) \<noteq> None"
  then obtain d rest where d: "link_char d"
    and s: "c # removeLinks cs = ''https://'' @ d # rest \<or> c # removeLinks cs = ''http://'' @ d # rest"
    by (auto simp only: link_match_start)
  from s show False
  proof
    assume e: "c # removeLinks cs = ''https://'' @ d # rest"
    then have c: "c = CHR ''h''" by simp
    from e have "removeLinks cs = (''ttps://'' @ [d]) @ rest" by simp
    moreover have "\<forall>x\<in>set (''ttps://'' @ [d]). link_char x" using d by (simp add: link_char_def)
    ultimately have "prefix (''ttps://'' @ [d]) cs" by (rule removeLinks_prefix)
    then obtain z where "cs = (''ttps://'' @ [d]) @ z" by (auto simp: prefix_def)
    with c have "c # cs = ''https://'' @ d # z" by simp
    with d have "link_match (c # cs) \<noteq> None" by (simp only: link_match_start) blast
    with assms show False by simp
  next
    assume e: "c # removeLinks cs = ''http://'' @ d # rest"
    then have c: "c = CHR ''h''" by simp
    from e have "removeLinks cs = (''ttp://'' @ [d]) @ rest" by simp
    moreover have "\<forall>x\<in>set (''ttp://'' @ [d]). link_char x" using d by (simp add: link_char_def)
    ultimately have "prefix (''ttp://'' @ [d]) cs" by (rule removeLinks_prefix)
    then obtain z where "cs = (''ttp://'' @ [d]) @ z" by (auto simp: prefix_def)
    with c have "c # cs = ''http://'' @ d # z" by simp
    with d have "link_match (c # cs) \<noteq> None" by (simp only: link_match_start) blast
    with assms show False by simp
  qed
qed

lemma removeLinks_no_link: "\<not> has_link (removeLinks s)"
proof (induction s rule: removeLinks.induct)
  case 1 show ?case by simp
next
  case (2 c cs)
  show ?case
  proof (cases "link_match (c # cs)")
    case None
    with 2 link_match_keep[OF None] show ?thesis by simp
  next
    case (Some rest)
    with 2 show ?thesis by simp
  qed
qed

lemma removeLinks_id: "\<not> has_link s \<Longrightarrow> removeLinks s = s"
  by (induction s) (auto split: option.splits)

lemma removeLinks_idem: "removeLinks (removeLinks s) = removeLinks s"
  by (simp add: removeLinks_id removeLinks_no_link)

lemma no_colon_no_link: "CHR '':'' \<notin> set s \<Longrightarrow> \<not> has_link s"
proof (induction s)
  case Nil show ?case by simp
next
  case (Cons c cs)
  have "link_match (c # cs) = None"
  proof (rule ccontr)
    assume "link_match (c # cs) \<noteq> None"
    then obtain d rest where "c # cs = ''https://'' @ d # rest \<or> c # cs = ''http://'' @ d # rest"
      by (auto simp only: link_match_start)
    then have "CHR '':'' \<in> set (c # cs)" by auto
    with Cons.prems show False by simp
  qed
  with Cons show ?case by simp
qed

lemma no_scheme_across:
  assumes "CHR '':'' \<notin> set a" "a \<noteq> []" "s = [] \<or> hd s \<in> {CHR ''h'', CHR '' '', CHR ''~''}"
  shows "match_scheme (a @ s) = None"
proof (rule ccontr)
  assume "match_scheme (a @ s) \<noteq> None"
  then obtain r where "a @ s = ''https://'' @ r \<or> a @ s = ''http://'' @ r"
    by (auto simp only: match_scheme_Some)
  then show False
  proof
    assume "a @ s = ''https://'' @ r"
    then show False using assms
      by (cases s) (auto simp: append_eq_Cons_conv Cons_eq_append_conv)
  next
    assume "a @ s = ''http://'' @ r"
    then show False using assms
      by (cases s) (auto simp: append_eq_Cons_conv Cons_eq_append_conv)
  qed
qed

lemma removeLinks_append:
  "CHR '':'' \<notin> set a \<Longrightarrow> s = [] \<or> hd s \<in> {CHR ''h'', CHR '' '', CHR ''~''} \<Longrightarrow>
   removeLinks (a @ s) = a @ removeLinks s"
proof (induction a)
  case Nil show ?case by simp
next
  case (Cons c a)
  have "match_scheme ((c # a) @ s) = None"
    using Cons.prems by (intro no_scheme_across) auto
  then have "link_match (c # a @ s) = None" by (simp add: link_match_def)
  with Cons show ?case by simp
qed

lemma link_match_url:
  assumes "u \<noteq> []" "\<forall>c\<in>set u. link_char c" "b = [] \<or> \<not> link_char (hd b)"
  shows "link_match (''http://'' @ u @ b) = Some b" "link_match (''https://'' @ u @ b) = Some b"
proof -
  have t: "takeWhile link_char (u @ b) = u" and d: "dropWhile link_char (u @ b) = b"
    using assms by (cases b; simp)+
  have "match_scheme (''http://'' @ u @ b) = Some (u @ b)"
    "match_scheme (''https://'' @ u @ b) = Some (u @ b)"
    by (simp_all only: match_scheme_Some) simp_all
  then show "link_match (''http://'' @ u @ b) = Some b" "link_match (''https://'' @ u @ b) = Some b"
    using t d assms(1) by (simp_all only: link_match_Some) auto
qed

lemma removeLinks_url:
  assumes "CHR '':'' \<notin> set a" "u \<noteq> []" "\<forall>c\<in>set u. link_char c" "b = [] \<or> \<not> link_char (hd b)"
  shows "removeLinks (a @ ''http://'' @ u @ b) = a @ removeLinks b"
    and "removeLinks (a @ ''https://'' @ u @ b) = a @ removeLinks b"
proof -
  have "removeLinks (''http://'' @ u @ b) = removeLinks b"
    using link_match_url(1)[OF assms(2,3,4)] by simp
  moreover have "removeLinks (a @ ''http://'' @ u @ b) = a @ removeLinks (''http://'' @ u @ b)"
    using assms(1) by (intro removeLinks_append) auto
  ultimately show "removeLinks (a @ ''http://'' @ u @ b) = a @ removeLinks b" by simp
  have "removeLinks (''https://'' @ u @ b) = removeLinks b"
    using link_match_url(2)[OF assms(2,3,4)] by simp
  moreover have "removeLinks (a @ ''https://'' @ u @ b) = a @ removeLinks (''https://'' @ u @ b)"
    using assms(1) by (intro removeLinks_append) auto
  ultimately show "removeLinks (a @ ''https://'' @ u @ b) = a @ removeLinks b" by simp
qed

lemma removeLinks_plain_append:
  assumes "CHR '':'' \<notin> set a" "b = [] \<or> \<not> link_char (hd b)"
  shows "removeLinks (a @ b) = a @ removeLinks b"
  using assms by (intro removeLinks_append) (auto simp: link_char_def)

lemma normalize_cong: "removeLinks x = removeLinks y \<Longrightarrow> normalize x = normalize y"
  by (simp add: normalize_def)

lemma normalize_removeLinks: "normalize (removeLinks x) = normalize x"
  by (rule normalize_cong) (rule removeLinks_idem)

lemma normalize_url:
  assumes "CHR '':'' \<notin> set a" "u \<noteq> []" "\<forall>c\<in>set u. link_char c" "b = [] \<or> \<not> link_char (hd b)"
  shows "normalize (a @ ''http://'' @ u @ b) = normalize (a @ b)"
    and "normalize (a @ ''https://'' @ u @ b) = normalize (a @ b)"
  using removeLinks_url[OF assms] removeLinks_plain_append[OF assms(1,4)]
  by (auto intro!: normalize_cong)

lemma normalize_stages: "normalize x = tail_stage (char_stage x)"
  by (simp add: normalize_def tail_stage_def char_stage_def)

lemma set_replace_char_all: "set (replace_char_all c r s) \<subseteq> (set s - {c}) \<union> set r"
  by (induction s) (auto simp: replace_char_all_def)

lemma replace_char_all_id: "c \<notin> set s \<Longrightarrow> replace_char_all c r s = s"
  by (induction s) (auto simp: replace_char_all_def)

lemma stage_sets:
  fixes S :: "'a set"
  assumes "S \<inter> (R \<union> {x, y}) = {}" "N \<subseteq> (S - {n}) \<union> D" "A \<subseteq> (N - {m}) \<union> E"
    "D \<inter> (R \<union> {x, y, n, m}) = {}" "E \<inter> (R \<union> {x, y, n, m}) = {}"
  shows "A \<inter> (R \<union> {x, y, n, m}) = {}"
  using assms by blast

lemma char_stage_special: "set (char_stage x) \<inter> special = {}"
proof -
  let ?f = "filter (\<lambda>c. c \<noteq> CHR 0x0D \<and> c \<noteq> CHR 0x09)
           (filter (\<lambda>c. c \<notin> reserved) (filter (\<lambda>c. c \<noteq> CHR ''*'') (removeLinks x)))"
  have f: "set ?f \<inter> (reserved \<union> {CHR 0x0D, CHR 0x09}) = {}" by auto
  have n: "set (replace_char_all (CHR 0x0A) '' - '' ?f) \<subseteq> (set ?f - {CHR 0x0A}) \<union> set '' - ''"
    by (rule set_replace_char_all)
  have a: "set (char_stage x) \<subseteq> (set (replace_char_all (CHR 0x0A) '' - '' ?f) - {CHR ''&''}) \<union> set ''and''"
    unfolding char_stage_def by (rule set_replace_char_all)
  have r: "set '' - '' \<inter> special = {}" "set ''and'' \<inter> special = {}"
    by (simp_all add: special_def reserved_def)
  from f n a r[unfolded special_def] show ?thesis unfolding special_def by (rule stage_sets)
qed

lemma set_collapse_dots: "set (collapse_dots s) \<subseteq> set s"
  by (induction s) (auto dest: set_dropWhileD)

lemma set_drop_tilde: "set (drop_tilde s) \<subseteq> set s"
  by (auto simp: drop_tilde_def split: list.splits if_splits)

lemma set_drop_edge_dot: "set (drop_edge_dot s) \<subseteq> set s"
  by (auto simp: drop_edge_dot_def split: list.splits if_splits dest: in_set_butlastD)

lemma set_collapse_space: "set (collapse_space s) \<subseteq> insert (CHR '' '') (set s)"
  by (induction s) (auto dest: set_dropWhileD)

lemma set_trim: "set (trim s) \<subseteq> set s"
  by (auto simp: trim_def dest!: set_dropWhileD)

lemma set_tail_stage: "set (tail_stage s) \<subseteq> insert (CHR '' '') (set s)"
  unfolding tail_stage_def
  using set_trim set_collapse_space set_drop_edge_dot set_drop_tilde set_collapse_dots
  by (meson insert_mono subset_trans)

lemma normalize_special: "set (normalize x) \<inter> special = {}"
proof -
  have "CHR '' '' \<notin> special" by (simp add: special_def reserved_def)
  with char_stage_special[of x] set_tail_stage[of "char_stage x"] show ?thesis
    unfolding normalize_stages by blast
qed

lemma char_stage_id:
  assumes "set y \<inter> special = {}"
  shows "char_stage y = y"
proof -
  from assms have c: "CHR '':'' \<notin> set y" by (auto simp: special_def reserved_def)
  then have 1: "removeLinks y = y" by (simp add: removeLinks_id no_colon_no_link)
  from assms have 2: "filter (\<lambda>c. c \<noteq> CHR ''*'') y = y"
    by (intro filter_True) (auto simp: special_def reserved_def)
  from assms have 3: "filter (\<lambda>c. c \<notin> reserved) y = y"
    by (intro filter_True) (auto simp: special_def)
  from assms have 4: "filter (\<lambda>c. c \<noteq> CHR 0x0D \<and> c \<noteq> CHR 0x09) y = y"
    by (intro filter_True) (auto simp: special_def)
  from assms have 5: "replace_char_all (CHR 0x0A) '' - '' y = y"
    by (intro replace_char_all_id) (auto simp: special_def)
  from assms have 6: "replace_char_all (CHR ''&'') ''and'' y = y"
    by (intro replace_char_all_id) (auto simp: special_def)
  show ?thesis unfolding char_stage_def by (simp only: 1 2 3 4 5 6)
qed

lemma adjacent_Cons: "adjacent P (a # r) = ((r \<noteq> [] \<and> P a \<and> P (hd r)) \<or> adjacent P r)"
  by (cases r) auto

lemma dropWhile_stop: "r = [] \<or> \<not> P (hd r) \<Longrightarrow> dropWhile P r = r"
  by (cases r) auto

lemma collapse_dots_id: "\<not> adjacent (\<lambda>c. c = CHR ''.'') y \<Longrightarrow> collapse_dots y = y"
proof (induction y)
  case Nil show ?case by simp
next
  case (Cons c cs)
  then show ?case by (simp add: adjacent_Cons dropWhile_stop)
qed

lemma collapse_space_id:
  "\<not> adjacent js_space y \<Longrightarrow> list_all (\<lambda>c. js_space c \<longrightarrow> c = CHR '' '') y \<Longrightarrow> collapse_space y = y"
proof (induction y)
  case Nil show ?case by simp
next
  case (Cons c cs)
  then show ?case by (simp add: adjacent_Cons dropWhile_stop)
qed

lemma dropWhile_rev_stop:
  assumes "t = [] \<or> \<not> P (hd t)"
  shows "dropWhile P (rev (dropWhile P (rev t))) = rev (dropWhile P (rev t))"
proof (cases "dropWhile P (rev t) = []")
  case True then show ?thesis by (simp only: rev.simps dropWhile.simps)
next
  case False
  have "rev t = takeWhile P (rev t) @ dropWhile P (rev t)" by simp
  then have "t = rev (dropWhile P (rev t)) @ rev (takeWhile P (rev t))"
    by (metis rev_append rev_rev_ident)
  with False have "hd t = hd (rev (dropWhile P (rev t)))" "t \<noteq> []"
    by (metis hd_append2 rev_is_Nil_conv, metis False dropWhile.simps(1) rev_is_Nil_conv)
  with assms have "\<not> P (hd (rev (dropWhile P (rev t))))" by simp
  then show ?thesis by (intro dropWhile_stop) simp
qed

lemma trim_idem: "trim (trim s) = trim s"
proof -
  let ?t = "dropWhile js_space s"
  have "?t = [] \<or> \<not> js_space (hd ?t)" using hd_dropWhile by blast
  then have "dropWhile js_space (trim s) = trim s"
    unfolding trim_def by (rule dropWhile_rev_stop)
  then show ?thesis by (simp add: trim_def dropWhile_idem)
qed

lemma tail_stage_id:
  assumes "settled y" "trim y = y"
  shows "tail_stage y = y"
proof -
  from assms(1) have 1: "collapse_dots y = y" by (simp add: settled_def collapse_dots_id)
  from assms(1) have 2: "drop_tilde y = y" by (cases y) (auto simp: settled_def drop_tilde_def)
  from assms(1) have 3: "drop_edge_dot y = y" by (cases y) (auto simp: settled_def drop_edge_dot_def)
  from assms(1) have 4: "collapse_space y = y" by (simp add: settled_def collapse_space_id)
  show ?thesis unfolding tail_stage_def by (simp only: 1 2 3 4 assms(2))
qed

lemma trim_normalize: "trim (normalize x) = normalize x"
  by (simp add: normalize_def trim_idem)

lemma normalize_settled: "settled (normalize x) \<Longrightarrow> normalize (normalize x) = normalize x"
  using char_stage_id[OF normalize_special] tail_stage_id[OF _ trim_normalize]
  by (simp add: normalize_stages[of "normalize x"])

lemma char_stage_map: "char_stage x = char_map (removeLinks x)"
  by (simp add: char_stage_def char_map_def)

lemma replace_char_all_append:
  "replace_char_all c r (a @ b) = replace_char_all c r a @ replace_char_all c r b"
  by (simp add: replace_char_all_def)

lemma char_map_append: "char_map (a @ b) = char_map a @ char_map b"
  by (simp add: char_map_def replace_char_all_append)

lemma colon_special: "CHR '':'' \<in> special"
  by (simp add: special_def reserved_def)

lemma plain_set:
  assumes "list_all plain p"
  shows "set p \<inter> special = {}" "CHR ''.'' \<notin> set p" "CHR ''~'' \<notin> set p"
    "list_all (\<lambda>c. \<not> js_space c) p" "CHR '':'' \<notin> set p"
proof -
  show 1: "set p \<inter> special = {}" using assms by (auto simp: list_all_iff plain_def)
  show "CHR ''.'' \<notin> set p" "CHR ''~'' \<notin> set p" "list_all (\<lambda>c. \<not> js_space c) p"
    using assms by (auto simp: list_all_iff plain_def)
  show "CHR '':'' \<notin> set p" using 1 colon_special by blast
qed

lemma char_map_plain: "list_all plain p \<Longrightarrow> char_map p = p"
  using char_stage_id[of p] plain_set(1,5)[of p]
  by (simp add: char_stage_map removeLinks_id no_colon_no_link)

lemma char_stage_amp:
  assumes "list_all plain p" "list_all plain q"
  shows "char_stage (p @ ''&'' @ q) = p @ ''and'' @ q"
proof -
  have "CHR '':'' \<notin> set (p @ ''&'' @ q)" using plain_set(5)[OF assms(1)] plain_set(5)[OF assms(2)] by simp
  then have "removeLinks (p @ ''&'' @ q) = p @ ''&'' @ q" by (intro removeLinks_id no_colon_no_link)
  moreover have "char_map ''&'' = ''and''" by (simp add: char_map_def replace_char_all_def reserved_def)
  ultimately show ?thesis
    by (simp only: char_stage_map char_map_append char_map_plain[OF assms(1)] char_map_plain[OF assms(2)])
qed

lemma char_stage_newline:
  assumes "list_all plain p" "list_all plain q"
  shows "char_stage (p @ [CHR 0x0A] @ q) = p @ '' - '' @ q"
proof -
  have "CHR '':'' \<notin> set (p @ [CHR 0x0A] @ q)" using plain_set(5)[OF assms(1)] plain_set(5)[OF assms(2)] by simp
  then have "removeLinks (p @ [CHR 0x0A] @ q) = p @ [CHR 0x0A] @ q" by (intro removeLinks_id no_colon_no_link)
  moreover have "char_map [CHR 0x0A] = '' - ''" by (simp add: char_map_def replace_char_all_def reserved_def)
  ultimately show ?thesis
    by (simp only: char_stage_map char_map_append char_map_plain[OF assms(1)] char_map_plain[OF assms(2)])
qed

lemma adjacent_append: "list_all (\<lambda>c. \<not> P c) p \<Longrightarrow> adjacent P (p @ r) = adjacent P r"
  by (induction p) (simp_all add: adjacent_Cons)

lemma adjacent_none: "list_all (\<lambda>c. \<not> P c) p \<Longrightarrow> \<not> adjacent P p"
  using adjacent_append[of P p "[]"] by simp

lemma trim_id: "s \<noteq> [] \<Longrightarrow> \<not> js_space (hd s) \<Longrightarrow> \<not> js_space (last s) \<Longrightarrow> trim s = s"
proof -
  assume a: "s \<noteq> []" "\<not> js_space (hd s)" "\<not> js_space (last s)"
  then have 1: "dropWhile js_space s = s" by (intro dropWhile_stop) simp
  from a have "\<not> js_space (hd (rev s))" by (simp add: hd_rev)
  then have 2: "dropWhile js_space (rev s) = rev s" by (intro dropWhile_stop) simp
  show ?thesis unfolding trim_def by (simp only: 1 2 rev_rev_ident)
qed

lemma plain_and: "list_all plain ''and''"
  by (simp add: plain_def special_def reserved_def js_space_def)

lemma tail_stage_plain:
  assumes "list_all plain z"
  shows "tail_stage z = z"
proof (cases "z = []")
  case True then show ?thesis
    by (simp add: tail_stage_def drop_tilde_def drop_edge_dot_def trim_def)
next
  case False
  then have m: "hd z \<in> set z" "last z \<in> set z" by simp_all
  note ps = plain_set[OF assms]
  from ps(4) m have sp: "\<not> js_space (hd z)" "\<not> js_space (last z)" by (auto simp: list_all_iff)
  from ps(2,3) m have e: "hd z \<noteq> CHR ''~''" "hd z \<noteq> CHR ''.''" "last z \<noteq> CHR ''.''" by auto
  have d: "\<not> adjacent (\<lambda>c. c = CHR ''.'') z"
    using ps(2) by (intro adjacent_none) (auto simp: list_all_iff)
  have s: "\<not> adjacent js_space z" using ps(4) by (rule adjacent_none)
  have l: "list_all (\<lambda>c. js_space c \<longrightarrow> c = CHR '' '') z" using ps(4) by (simp add: list_all_iff)
  have "settled z" unfolding settled_def using e d s l by simp
  moreover have "trim z = z" using False sp by (rule trim_id)
  ultimately show ?thesis by (rule tail_stage_id)
qed

lemma tail_stage_dash:
  assumes "list_all plain p" "list_all plain q" "p \<noteq> []" "q \<noteq> []"
  shows "tail_stage (p @ '' - '' @ q) = p @ '' - '' @ q"
proof -
  let ?z = "p @ '' - '' @ q"
  note pp = plain_set[OF assms(1)] and pq = plain_set[OF assms(2)]
  from assms(3,4) have hl: "hd ?z = hd p" "last ?z = last q" "hd p \<in> set p" "last q \<in> set q" "hd q \<in> set q"
    by simp_all
  from pp(4) pq(4) hl have sp: "\<not> js_space (hd ?z)" "\<not> js_space (last ?z)" "\<not> js_space (hd q)"
    by (auto simp: list_all_iff)
  from pp(2,3) pq(2) hl have e: "hd ?z \<noteq> CHR ''~''" "hd ?z \<noteq> CHR ''.''" "last ?z \<noteq> CHR ''.''"
    by auto
  have "list_all (\<lambda>c. \<not> c = CHR ''.'') ?z" using pp(2) pq(2) by (auto simp: list_all_iff)
  then have d: "\<not> adjacent (\<lambda>c. c = CHR ''.'') ?z" by (rule adjacent_none)
  have "adjacent js_space ?z = adjacent js_space ('' - '' @ q)"
    using pp(4) by (rule adjacent_append)
  also have "\<dots> = adjacent js_space q"
    using sp(3) assms(4) by (simp add: js_space_def adjacent_Cons)
  also have "\<dots> = False"
    using adjacent_none[OF pq(4)] by simp
  finally have s: "\<not> adjacent js_space ?z" by simp
  have l: "list_all (\<lambda>c. js_space c \<longrightarrow> c = CHR '' '') ?z"
  proof -
    have "\<not> js_space (CHR ''-'')" by (simp add: js_space_def)
    with pp(4) pq(4) show ?thesis by (auto simp: list_all_iff)
  qed
  have "settled ?z" unfolding settled_def using e d s l by simp
  moreover have "trim ?z = ?z" using _ sp(1,2) by (rule trim_id) simp
  ultimately show ?thesis by (rule tail_stage_id)
qed

lemma normalize_amp:
  assumes "list_all plain p" "list_all plain q"
  shows "normalize (p @ ''&'' @ q) = p @ ''and'' @ q"
proof -
  have "list_all plain (p @ ''and'' @ q)" using assms plain_and by simp
  then show ?thesis
    unfolding normalize_stages char_stage_amp[OF assms] by (rule tail_stage_plain)
qed

lemma normalize_newline:
  assumes "list_all plain p" "list_all plain q" "p \<noteq> []" "q \<noteq> []"
  shows "normalize (p @ [CHR 0x0A] @ q) = p @ '' - '' @ q"
  unfolding normalize_stages char_stage_newline[OF assms(1,2)] using assms by (rule tail_stage_dash)

subsection \<open>What normalize removes and replaces\<close>

lemma trimmed_trim: "trimmed s \<Longrightarrow> trim s = s"
proof (cases s)
  case Nil then show ?thesis by (simp add: trim_def)
next
  case (Cons c cs)
  assume "trimmed s"
  with Cons have "s \<noteq> []" "\<not> js_space (hd s)" "\<not> js_space (last s)"
    by (simp_all add: trimmed_def)
  then show ?thesis by (rule trim_id)
qed

lemma char_map_clean: "set p \<inter> special = {} \<Longrightarrow> char_map p = p"
proof -
  assume a: "set p \<inter> special = {}"
  with colon_special have "CHR '':'' \<notin> set p" by blast
  then have "removeLinks p = p" by (intro removeLinks_id no_colon_no_link)
  with char_stage_id[OF a] show ?thesis by (simp add: char_stage_map)
qed

lemma char_map_chars:
  "char_map ''&'' = ''and''" "char_map [CHR 0x0A] = '' - ''"
  "c \<in> reserved \<or> c = CHR 0x0D \<or> c = CHR 0x09 \<Longrightarrow> char_map [c] = []"
  "c \<notin> special \<Longrightarrow> char_map [c] = [c]"
proof -
  show "char_map ''&'' = ''and''" "char_map [CHR 0x0A] = '' - ''"
    by (simp_all add: char_map_def replace_char_all_def reserved_def)
  show "char_map [c] = []" if "c \<in> reserved \<or> c = CHR 0x0D \<or> c = CHR 0x09"
    using that by (auto simp: char_map_def replace_char_all_def reserved_def)
  show "char_map [c] = [c]" if "c \<notin> special"
    using that by (intro char_map_clean) simp
qed

lemma normalize_replaced:
  assumes "set p \<inter> special = {}" "set q \<inter> special = {}"
    and "char_map w = r" and "set w \<subseteq> {CHR ''&'', CHR 0x0A}"
    and "settled (p @ r @ q)" "trimmed (p @ r @ q)"
  shows "normalize (p @ w @ q) = p @ r @ q"
proof -
  have "CHR '':'' \<notin> set (p @ w @ q)"
    using assms(1,2,4) colon_special by auto
  then have "removeLinks (p @ w @ q) = p @ w @ q" by (intro removeLinks_id no_colon_no_link)
  then have "char_stage (p @ w @ q) = p @ r @ q"
    by (simp only: char_stage_map char_map_append char_map_clean[OF assms(1)]
          char_map_clean[OF assms(2)] assms(3))
  moreover have "tail_stage (p @ r @ q) = p @ r @ q"
    using assms(5) trimmed_trim[OF assms(6)] by (rule tail_stage_id)
  ultimately show ?thesis by (simp only: normalize_stages)
qed

text \<open>
  C5, as stated: \<open>normalize\<close> is idempotent on every input. It is not: of a text
  with a dot at both ends the first pass drops the leading dot only, and the second
  pass then drops the trailing one; and of a text that begins with a dot and a tilde the
  first pass drops the dot, the test for a leading tilde having come before it.
\<close>

theorem normalize_not_idempotent:
  "normalize (normalize ''.a.'') \<noteq> normalize ''.a.''
   \<and> normalize (normalize ''.~a'') \<noteq> normalize ''.~a''"
  by code_simp

text \<open>
  C5, amended. For every input the result of \<open>normalize\<close> holds no reserved character,
  no ampersand and no newline. \<open>normalize\<close> is its first-match steps applied to
  \<open>char_map\<close> of the text without its links, and \<open>char_map\<close> works character by
  character, wherever the character stands: every ampersand becomes \<open>and\<close>, every
  newline a dash between two blanks, every reserved character, carriage return and
  tabulator is dropped, and every other character stays. So \<open>normalize\<close> turns an
  ampersand or a newline between two texts free of such characters into \<open>and\<close> or the
  dash, whenever the first-match steps have nothing to do on the result. And a second
  pass leaves the result of the first one as it is whenever that result is settled: no
  tilde or dot in front, no dot at the end, no two dots in a row, no white space but
  single blanks.
\<close>

theorem normalize_sanitizes:
  "set (normalize x) \<inter> reserved = {}
   \<and> CHR ''&'' \<notin> set (normalize x)
   \<and> CHR 0x0A \<notin> set (normalize x)
   \<and> normalize x = tail_stage (char_map (removeLinks x))
   \<and> char_map (a @ ''&'' @ b) = char_map a @ ''and'' @ char_map b
   \<and> char_map (a @ [CHR 0x0A] @ b) = char_map a @ '' - '' @ char_map b
   \<and> (c \<in> reserved \<or> c = CHR 0x0D \<or> c = CHR 0x09 \<longrightarrow>
        char_map (a @ [c] @ b) = char_map a @ char_map b)
   \<and> (c \<notin> special \<longrightarrow> char_map (a @ [c] @ b) = char_map a @ [c] @ char_map b)
   \<and> (set p \<inter> special = {} \<and> set q \<inter> special = {}
       \<and> settled (p @ ''and'' @ q) \<and> trimmed (p @ ''and'' @ q) \<longrightarrow>
        normalize (p @ ''&'' @ q) = p @ ''and'' @ q)
   \<and> (set p \<inter> special = {} \<and> set q \<inter> special = {}
       \<and> settled (p @ '' - '' @ q) \<and> trimmed (p @ '' - '' @ q) \<longrightarrow>
        normalize (p @ [CHR 0x0A] @ q) = p @ '' - '' @ q)
   \<and> (settled (normalize x) \<longrightarrow> normalize (normalize x) = normalize x)"
proof -
  have s: "set (normalize x) \<inter> special = {}" by (rule normalize_special)
  have "reserved \<subseteq> special" "CHR ''&'' \<in> special" "CHR 0x0A \<in> special"
    by (auto simp: special_def)
  with s have 1: "set (normalize x) \<inter> reserved = {}" "CHR ''&'' \<notin> set (normalize x)"
    "CHR 0x0A \<notin> set (normalize x)" by blast+
  have 2: "normalize x = tail_stage (char_map (removeLinks x))"
    by (simp only: normalize_stages char_stage_map)
  have 3: "char_map (a @ ''&'' @ b) = char_map a @ ''and'' @ char_map b"
    "char_map (a @ [CHR 0x0A] @ b) = char_map a @ '' - '' @ char_map b"
    by (simp_all only: char_map_append char_map_chars(1,2))
  have 4: "char_map (a @ [c] @ b) = char_map a @ char_map b"
    if "c \<in> reserved \<or> c = CHR 0x0D \<or> c = CHR 0x09"
    by (simp only: char_map_append char_map_chars(3)[OF that] append_Nil)
  have 5: "char_map (a @ [c] @ b) = char_map a @ [c] @ char_map b" if "c \<notin> special"
    by (simp only: char_map_append char_map_chars(4)[OF that])
  have 6: "normalize (p @ ''&'' @ q) = p @ ''and'' @ q"
    if "set p \<inter> special = {}" "set q \<inter> special = {}"
       "settled (p @ ''and'' @ q)" "trimmed (p @ ''and'' @ q)"
    using that(1,2) char_map_chars(1) _ that(3,4) by (rule normalize_replaced) simp
  have 7: "normalize (p @ [CHR 0x0A] @ q) = p @ '' - '' @ q"
    if "set p \<inter> special = {}" "set q \<inter> special = {}"
       "settled (p @ '' - '' @ q)" "trimmed (p @ '' - '' @ q)"
    using that(1,2) char_map_chars(2) _ that(3,4) by (rule normalize_replaced) simp
  have 8: "normalize (normalize x) = normalize x" if "settled (normalize x)"
    using that by (rule normalize_settled)
  from 1 2 3 4 5 6 7 8 show ?thesis by blast
qed

text \<open>
  C5, instances: every input of the repository's test suite gives the result that the
  suite expects, a settled one, which a second pass leaves as it is; the sample with the
  ampersand; a newline between two lines; two ampersands in a row; a reserved and an
  ordinary character.
\<close>

theorem normalize_sanitizes_witness:
  "map normalize test_samples = test_expected
   \<and> list_all (\<lambda>x. settled (normalize x)) test_samples
   \<and> list_all (\<lambda>x. normalize (normalize x) = normalize x) test_samples
   \<and> list_all (\<lambda>x. set (normalize x) \<inter> reserved = {}) test_samples
   \<and> normalize ''Ampersand (&)'' = ''Ampersand (and)''
   \<and> normalize (''Line one'' @ [CHR 0x0A] @ ''line two'') = ''Line one - line two''
   \<and> char_map ''a&&b'' = ''aandandb''
   \<and> char_map ''a*b'' = ''ab'' \<and> char_map ''a#b'' = ''a#b''"
proof -
  have m: "map normalize test_samples = test_expected" by code_simp
  have "list_all settled test_expected" by code_simp
  then have st: "list_all (\<lambda>x. settled (normalize x)) test_samples"
    unfolding m[symmetric] by (simp add: list_all_iff)
  have idem: "normalize (normalize x) = normalize x" if "settled (normalize x)" for x
    using normalize_sanitizes[where x = x] that by blast
  from st have i: "list_all (\<lambda>x. normalize (normalize x) = normalize x) test_samples"
    unfolding list_all_iff using idem by blast
  have r: "list_all (\<lambda>x. set (normalize x) \<inter> reserved = {}) test_samples"
    unfolding list_all_iff using normalize_sanitizes by blast
  have p: "set ''Ampersand ('' \<inter> special = {}" "set '')'' \<inter> special = {}"
    "set ''Line one'' \<inter> special = {}" "set ''line two'' \<inter> special = {}"
    by (simp_all add: special_def reserved_def)
  have s1: "settled (''Ampersand ('' @ ''and'' @ '')'')" "trimmed (''Ampersand ('' @ ''and'' @ '')'')"
    by code_simp+
  have s2: "settled (''Line one'' @ '' - '' @ ''line two'')" "trimmed (''Line one'' @ '' - '' @ ''line two'')"
    by code_simp+
  from normalize_sanitizes[where p = "''Ampersand (''" and q = "'')''"] p(1,2) s1
  have "normalize (''Ampersand ('' @ ''&'' @ '')'') = ''Ampersand ('' @ ''and'' @ '')''" by blast
  then have a: "normalize ''Ampersand (&)'' = ''Ampersand (and)''" by simp
  from normalize_sanitizes[where p = "''Line one''" and q = "''line two''"] p(3,4) s2
  have "normalize (''Line one'' @ [CHR 0x0A] @ ''line two'') = ''Line one'' @ '' - '' @ ''line two''"
    by blast
  then have n: "normalize (''Line one'' @ [CHR 0x0A] @ ''line two'') = ''Line one - line two''"
    by simp
  have k: "char_map ''a&'' = ''aand''" "char_map ''a'' = ''a''" "char_map ''b'' = ''b''" by code_simp+
  from normalize_sanitizes[where a = "''a&''" and b = "''b''"]
  have "char_map (''a&'' @ ''&'' @ ''b'') = char_map ''a&'' @ ''and'' @ char_map ''b''" by blast
  then have c1: "char_map ''a&&b'' = ''aandandb''" by (simp add: k)
  have v: "CHR ''*'' \<in> reserved" "CHR ''#'' \<notin> special" by (simp_all add: special_def reserved_def)
  from normalize_sanitizes[where a = "''a''" and b = "''b''" and c = "CHR ''*''"] v(1)
  have "char_map (''a'' @ [CHR ''*''] @ ''b'') = char_map ''a'' @ char_map ''b''" by blast
  then have c2: "char_map ''a*b'' = ''ab''" by (simp add: k)
  from normalize_sanitizes[where a = "''a''" and b = "''b''" and c = "CHR ''#''"] v(2)
  have "char_map (''a'' @ [CHR ''#''] @ ''b'') = char_map ''a'' @ [CHR ''#''] @ char_map ''b''" by blast
  then have c3: "char_map ''a#b'' = ''a#b''" by (simp add: k)
  from m st i r a n c1 c2 c3 show ?thesis by blast
qed

subsection \<open>Links\<close>

text \<open>
  C10. \<open>normalize\<close> is the character-level steps applied to the result of
  \<open>removeLinks\<close>, so that removing the links beforehand changes nothing; the result of
  \<open>removeLinks\<close> holds no match of the link pattern (\<open>http://\<close> or \<open>https://\<close> and
  at least one character other than a blank and a tilde); and a link that runs up to a
  blank, a tilde or the end of the text, after a text without a colon, is removed whole,
  by \<open>removeLinks\<close> and so by \<open>normalize\<close>.
\<close>

theorem normalize_removes_links:
  "normalize x = tail_stage (char_map (removeLinks x))
   \<and> normalize (removeLinks x) = normalize x
   \<and> \<not> has_link (removeLinks x)
   \<and> (CHR '':'' \<notin> set a \<and> u \<noteq> [] \<and> list_all link_char u \<and> (b = [] \<or> \<not> link_char (hd b)) \<longrightarrow>
        removeLinks (a @ ''http://'' @ u @ b) = a @ removeLinks b
        \<and> removeLinks (a @ ''https://'' @ u @ b) = a @ removeLinks b
        \<and> normalize (a @ ''http://'' @ u @ b) = normalize (a @ b)
        \<and> normalize (a @ ''https://'' @ u @ b) = normalize (a @ b))"
proof -
  have 1: "normalize x = tail_stage (char_map (removeLinks x))"
    by (simp only: normalize_stages char_stage_map)
  have 2: "normalize (removeLinks x) = normalize x" by (rule normalize_removeLinks)
  have 3: "\<not> has_link (removeLinks x)" by (rule removeLinks_no_link)
  have 4: "removeLinks (a @ ''http://'' @ u @ b) = a @ removeLinks b
        \<and> removeLinks (a @ ''https://'' @ u @ b) = a @ removeLinks b
        \<and> normalize (a @ ''http://'' @ u @ b) = normalize (a @ b)
        \<and> normalize (a @ ''https://'' @ u @ b) = normalize (a @ b)"
    if h: "CHR '':'' \<notin> set a" "u \<noteq> []" "list_all link_char u" "b = [] \<or> \<not> link_char (hd b)"
  proof -
    from h(3) have h3: "\<forall>c\<in>set u. link_char c" by (simp add: list_all_iff)
    show ?thesis
      using removeLinks_url[OF h(1,2) h3 h(4)] normalize_url[OF h(1,2) h3 h(4)] by blast
  qed
  from 1 2 3 4 show ?thesis by blast
qed

text \<open>C10, an instance: the sample of the repository's test suite.\<close>

theorem normalize_removes_links_witness:
  "CHR '':'' \<notin> set ''Google '' \<and> ''google.com.br'' \<noteq> [] \<and> list_all link_char ''google.com.br''
   \<and> \<not> link_char (hd '' WebSite'')
   \<and> removeLinks ''Google http://google.com.br WebSite'' = ''Google  WebSite''
   \<and> normalize ''Google http://google.com.br WebSite'' = ''Google WebSite''"
proof -
  have h: "CHR '':'' \<notin> set ''Google ''" "''google.com.br'' \<noteq> []" "list_all link_char ''google.com.br''"
    "\<not> link_char (hd '' WebSite'')" by (simp_all add: link_char_def)
  have r: "removeLinks '' WebSite'' = '' WebSite''" by code_simp
  have n: "normalize ''Google  WebSite'' = ''Google WebSite''" by code_simp
  have e1: "''Google '' @ ''http://'' @ ''google.com.br'' @ '' WebSite''
            = ''Google http://google.com.br WebSite''" by simp
  have e2: "''Google '' @ '' WebSite'' = ''Google  WebSite''" by simp
  from normalize_removes_links[of _ "''Google ''" "''google.com.br''" "'' WebSite''"] h
  have "removeLinks (''Google '' @ ''http://'' @ ''google.com.br'' @ '' WebSite'')
          = ''Google '' @ removeLinks '' WebSite''"
    and "normalize (''Google '' @ ''http://'' @ ''google.com.br'' @ '' WebSite'')
          = normalize (''Google '' @ '' WebSite'')"
    by blast+
  then have "removeLinks ''Google http://google.com.br WebSite'' = ''Google  WebSite''"
    and "normalize ''Google http://google.com.br WebSite'' = ''Google WebSite''"
    by (simp_all only: e1 e2 r n)
  with h show ?thesis by blast
qed

section \<open>Properties of NetSuiteService\<close>

subsection \<open>constructor and logout\<close>

text \<open>
  C9. After \<open>logout\<close> the access token, the refresh token, the pending state and the
  pending code are all \<open>null\<close>, whatever they were, and a second \<open>logout\<close> changes
  nothing.
\<close>

theorem logout_clears:
  "nsAccessToken (logout s) = Some JNull \<and> nsRefreshToken (logout s) = Some JNull
   \<and> nsState (logout s) = Some JNull \<and> nsCode (logout s) = Some JNull
   \<and> logout (logout s) = logout s"
  by (simp add: logout_def)

text \<open>
  C7. The constructor throws when the account id, the client id or the client secret is
  absent or empty, in this order, each with its own message. When all three are given it
  yields an instance whose refresh token, pending state and pending code are \<open>null\<close>
  and whose access token is the token passed in: \<open>undefined\<close> when none was.
\<close>

theorem constructor_checks:
  "(\<not> given (accountId p) \<longrightarrow>
      constructor ed p = Inl (BaseError (warning_sign @ '' The NetSuite Account ID is required!'')))
   \<and> (given (accountId p) \<and> \<not> given (client p) \<longrightarrow>
      constructor ed p = Inl (BaseError (warning_sign @ '' The NetSuite APP ClientID is required!'')))
   \<and> (given (accountId p) \<and> given (client p) \<and> \<not> given (secret p) \<longrightarrow>
      constructor ed p = Inl (BaseError (warning_sign @ '' The NetSuite APP ClientSecret is required!'')))
   \<and> (given (accountId p) \<and> given (client p) \<and> given (secret p) \<longrightarrow>
      (\<exists>s. constructor ed p = Inr s
           \<and> nsAccessToken s = token p \<and> nsRefreshToken s = Some JNull
           \<and> nsState s = Some JNull \<and> nsCode s = Some JNull))"
  by (simp add: constructor_def logout_def)

text \<open>
  C7, two instances: the parameters of \<open>index.js\<close> with a token, and the same with an
  empty account id.
\<close>

theorem constructor_checks_witness:
  "given (accountId sample_params) \<and> given (client sample_params) \<and> given (secret sample_params)
   \<and> (\<exists>s. constructor None sample_params = Inr s
           \<and> nsAccessToken s = Some (JStr ''A'') \<and> nsRefreshToken s = Some JNull
           \<and> nsState s = Some JNull \<and> nsCode s = Some JNull)
   \<and> \<not> given (accountId (sample_params\<lparr>accountId := Some []\<rparr>))
   \<and> constructor None (sample_params\<lparr>accountId := Some []\<rparr>)
       = Inl (BaseError (warning_sign @ '' The NetSuite Account ID is required!''))"
proof -
  have g: "given (accountId sample_params)" "given (client sample_params)"
    "given (secret sample_params)" "\<not> given (accountId (sample_params\<lparr>accountId := Some []\<rparr>))"
    by (simp_all add: sample_params_def given_def)
  have t: "token sample_params = Some (JStr ''A'')" by (simp add: sample_params_def)
  from constructor_checks[of sample_params None] g(1,2,3)
  have c: "\<exists>s. constructor None sample_params = Inr s
           \<and> nsAccessToken s = Some (JStr ''A'') \<and> nsRefreshToken s = Some JNull
           \<and> nsState s = Some JNull \<and> nsCode s = Some JNull"
    unfolding t by blast
  from constructor_checks[of "sample_params\<lparr>accountId := Some []\<rparr>" None] g(4)
  have "constructor None (sample_params\<lparr>accountId := Some []\<rparr>)
       = Inl (BaseError (warning_sign @ '' The NetSuite Account ID is required!''))" by blast
  with g c show ?thesis by blast
qed

subsection \<open>The token exchange\<close>

lemma fetch_Resolved:
  "server e (sent st) r = Resolved resp \<Longrightarrow> fetch e r st = (Inr resp, st\<lparr>sent := sent st @ [r]\<rparr>)"
  by (simp add: fetch_def)

lemma requestAuthorizationToken_try_sent:
  "requestAuthorizationToken_try e tok g st = (res, st') \<Longrightarrow>
     (case text_of tok of
        None \<Rightarrow> st' = st \<and> res = Inl TypeError
      | Some t \<Rightarrow> sent st' = sent st @ [token_request (self st) t g] \<and> files st' = files st
                  \<and> (\<forall>err. res = Inl err \<longrightarrow> st' = st\<lparr>sent := sent st @ [token_request (self st) t g]\<rparr>))"
  by (auto simp: requestAuthorizationToken_try_def fetch_def
           split: option.splits fetch_result.splits sum.splits if_splits)

lemma requestAuthorizationToken_Inl:
  "requestAuthorizationToken e tok g st = (Inl err, st') \<Longrightarrow>
     err = BaseError (''Cannot get the NetSuite authorization '' @ tokenKey g) \<and> self st' = self st
     \<and> (sent st' = sent st \<or> (\<exists>t. sent st' = sent st @ [token_request (self st) t g]))"
proof -
  assume a: "requestAuthorizationToken e tok g st = (Inl err, st')"
  obtain res s1 where t: "requestAuthorizationToken_try e tok g st = (res, s1)"
    by (cases "requestAuthorizationToken_try e tok g st")
  from a t obtain er where r: "res = Inl er" "s1 = st'"
    "err = BaseError (''Cannot get the NetSuite authorization '' @ tokenKey g)"
    by (cases res) (auto simp: requestAuthorizationToken_def)
  from requestAuthorizationToken_try_sent[OF t] r show ?thesis
    by (cases "text_of tok") auto
qed

lemma requestAuthorizationToken_Inr:
  "requestAuthorizationToken e tok g st = (Inr a, st') \<Longrightarrow>
     (\<exists>t. text_of tok = Some t \<and> sent st' = sent st @ [token_request (self st) t g])"
proof -
  assume a: "requestAuthorizationToken e tok g st = (Inr a, st')"
  obtain res s1 where t: "requestAuthorizationToken_try e tok g st = (res, s1)"
    by (cases "requestAuthorizationToken_try e tok g st")
  from a t have r: "res = Inr a" "s1 = st'"
    by (cases res; auto simp: requestAuthorizationToken_def)+
  from requestAuthorizationToken_try_sent[OF t] r show ?thesis
    by (cases "text_of tok") auto
qed

text \<open>
  C6, as stated: on a response with an \<open>error\<close> field the exchange fails with an error
  that carries the remote message. It does not: the remote side says
  \<open>invalid_grant\<close> and the caller is told that the code cannot be got.
\<close>

theorem requestAuthorizationToken_drops_message:
  "fst (requestAuthorizationToken server_grant (Some (JStr ''c0de'')) ''authorization_code'' sample_state)
     = Inl (BaseError ''Cannot get the NetSuite authorization code'')
   \<and> fst (requestAuthorizationToken server_grant (Some (JStr ''c0de'')) ''authorization_code'' sample_state)
     \<noteq> Inl (BaseError ''invalid_grant'')"
  by code_simp

text \<open>
  C6, amended. On a parsed response whose \<open>error\<close> field is truthy, whatever the HTTP
  status, the \<open>try\<close> block throws an error with the remote message (or, the message
  being absent, with the fallback text), and the \<open>catch\<close> of the same function throws
  in its place the error that names the token key, which is what the caller gets; the
  request has been sent and the instance is unchanged.
\<close>

theorem requestAuthorizationToken_error:
  assumes "text_of tok = Some t"
    and "server e (sent st) (token_request (self st) t g) = Resolved r"
    and "json_body r = Some a"
    and "get_field (Some a) ''error'' = Inr er" and "truthy er"
  shows "requestAuthorizationToken_try e tok g st
           = (Inl (authorization_error er), st\<lparr>sent := sent st @ [token_request (self st) t g]\<rparr>)
       \<and> requestAuthorizationToken e tok g st
           = (Inl (BaseError (''Cannot get the NetSuite authorization '' @ tokenKey g)),
              st\<lparr>sent := sent st @ [token_request (self st) t g]\<rparr>)
       \<and> (get_field er ''message'' = Inr (Some (JStr m)) \<and> m \<noteq> [] \<longrightarrow>
            authorization_error er = BaseError m)
       \<and> (get_field er ''message'' = Inr None \<longrightarrow>
            authorization_error er = BaseError ''Error in get authorization token'')"
proof -
  have 1: "requestAuthorizationToken_try e tok g st
           = (Inl (authorization_error er), st\<lparr>sent := sent st @ [token_request (self st) t g]\<rparr>)"
    using assms by (simp add: requestAuthorizationToken_try_def fetch_Resolved)
  then have 2: "requestAuthorizationToken e tok g st
           = (Inl (BaseError (''Cannot get the NetSuite authorization '' @ tokenKey g)),
              st\<lparr>sent := sent st @ [token_request (self st) t g]\<rparr>)"
    by (simp add: requestAuthorizationToken_def)
  have 3: "authorization_error er = BaseError m"
    if "get_field er ''message'' = Inr (Some (JStr m))" "m \<noteq> []"
    using that by (simp add: authorization_error_def text_of_def)
  have 4: "authorization_error er = BaseError ''Error in get authorization token''"
    if "get_field er ''message'' = Inr None"
    using that by (simp add: authorization_error_def)
  from 1 2 3 4 show ?thesis by blast
qed

text \<open>
  C6, an instance: the refused grant.
\<close>

theorem requestAuthorizationToken_error_witness:
  "requestAuthorizationToken_try server_grant (Some (JStr ''c0de'')) ''authorization_code'' sample_state
     = (Inl (BaseError ''invalid_grant''),
        sample_state\<lparr>sent := [token_request sample_service ''c0de'' ''authorization_code'']\<rparr>)
   \<and> requestAuthorizationToken server_grant (Some (JStr ''c0de'')) ''authorization_code'' sample_state
     = (Inl (BaseError ''Cannot get the NetSuite authorization code''),
        sample_state\<lparr>sent := [token_request sample_service ''c0de'' ''authorization_code'']\<rparr>)"
proof -
  let ?er = "Some (JObj [(''message'', JStr ''invalid_grant'')])"
  have 1: "text_of (Some (JStr ''c0de'')) = Some ''c0de''" by (simp add: text_of_def)
  have 2: "server server_grant (sent sample_state)
             (token_request (self sample_state) ''c0de'' ''authorization_code'') = Resolved grant_reply"
    by (simp add: server_grant_def)
  have 3: "json_body grant_reply = Some (JObj [(''error'', JObj [(''message'', JStr ''invalid_grant'')])])"
    by (simp add: grant_reply_def)
  have 4: "get_field (Some (JObj [(''error'', JObj [(''message'', JStr ''invalid_grant'')])])) ''error'' = Inr ?er"
    by simp
  have 5: "truthy ?er" by simp
  have 6: "get_field ?er ''message'' = Inr (Some (JStr ''invalid_grant''))" "''invalid_grant'' \<noteq> []"
    by simp_all
  have 7: "tokenKey ''authorization_code'' = ''code''" by (simp add: tokenKey_def)
  have 8: "self sample_state = sample_service" "sent sample_state = []" by (simp_all add: sample_state_def)
  from requestAuthorizationToken_error[OF 1 2 3 4 5, of "''invalid_grant''"] 6
  show ?thesis by (simp add: 7 8)
qed

subsection \<open>One attempt: \<open>#renewTokenWithNeeded\<close>\<close>

lemma internalRequest_Resolved:
  "getAuthHeader (self st) = Inr auth \<Longrightarrow>
   server e (sent st) (api_request auth url m b h) = Resolved r \<Longrightarrow>
   internalRequest e url m b h st = (Inr r, st\<lparr>sent := sent st @ [api_request auth url m b h]\<rparr>)"
  by (simp add: internalRequest_def api_request_def fetch_def)

text \<open>
  C2, as stated: a 401 on the first request is followed by one token exchange and then
  by one replay of the request. With the token endpoint out of reach the attempt ends
  after the exchange, and nothing is replayed.
\<close>

theorem renewTokenWithNeeded_no_replay:
  "renewTokenWithNeeded server_expired (req_url sample_get) ''GET'' None [] sample_state
     = (Inl (BaseError ''Cannot get the NetSuite authorization refresh_token''),
        sample_state\<lparr>sent := [sample_get, token_request sample_service ''null'' ''refresh_token'']\<rparr>)"
  by code_simp

text \<open>
  C2, amended. Let the first request be answered. If its status is not 401 the attempt
  sends nothing else and no token exchange takes place. If it is 401 the refresh is
  called once; when it fails, the attempt fails with the error of the exchange and
  nothing is replayed; when it succeeds, exactly one token request has been sent, the
  request is sent once more with the header of the new token, and an answer 401 to it
  makes the attempt fail with the status text of that answer.
\<close>

theorem renewTokenWithNeeded_refresh:
  assumes "getAuthHeader (self st) = Inr auth"
    and "server e (sent st) (api_request auth url m b h) = Resolved ra"
    and "sa = st\<lparr>sent := sent st @ [api_request auth url m b h]\<rparr>"
  shows "(status ra \<noteq> 401 \<longrightarrow>
            renewTokenWithNeeded e url m b h st = (parse_response ra, sa))
       \<and> (status ra = 401 \<and> refreshToken e sa = (Inl err, sb) \<longrightarrow>
            renewTokenWithNeeded e url m b h st
              = (Inl (BaseError ''Cannot get the NetSuite authorization refresh_token''), sb)
            \<and> self sb = self st
            \<and> (sent sb = sent sa
                \<or> (\<exists>t. sent sb = sent sa @ [token_request (self st) t ''refresh_token''])))
       \<and> (status ra = 401 \<and> refreshToken e sa = (Inr a, sb)
           \<and> getAuthHeader (self sb) = Inr authb
           \<and> server e (sent sb) (api_request authb url m b h) = Resolved rb \<longrightarrow>
            renewTokenWithNeeded e url m b h st
              = (parse_response rb, sb\<lparr>sent := sent sb @ [api_request authb url m b h]\<rparr>)
            \<and> (\<exists>t. text_of (nsRefreshToken (self st)) = Some t
                    \<and> sent sb = sent sa @ [token_request (self st) t ''refresh_token''])
            \<and> (status rb = 401 \<longrightarrow> parse_response rb = Inl (BaseError (statusText rb))))"
proof -
  have i1: "internalRequest e url m b h st = (Inr ra, sa)"
    using assms by (simp add: internalRequest_Resolved)
  have A: "renewTokenWithNeeded e url m b h st = (parse_response ra, sa)" if "status ra \<noteq> 401"
    using that i1 by (simp add: renewTokenWithNeeded_def)
  have B: "renewTokenWithNeeded e url m b h st
              = (Inl (BaseError ''Cannot get the NetSuite authorization refresh_token''), sb)
            \<and> self sb = self st
            \<and> (sent sb = sent sa
                \<or> (\<exists>t. sent sb = sent sa @ [token_request (self st) t ''refresh_token'']))"
    if "status ra = 401" "refreshToken e sa = (Inl err, sb)"
  proof -
    from that(2) have "requestAuthorizationToken e (nsRefreshToken (self sa)) ''refresh_token'' sa
        = (Inl err, sb)" by (simp add: refreshToken_def)
    from requestAuthorizationToken_Inl[OF this]
    have "err = BaseError ''Cannot get the NetSuite authorization refresh_token''"
      "self sb = self sa"
      "sent sb = sent sa \<or> (\<exists>t. sent sb = sent sa @ [token_request (self sa) t ''refresh_token''])"
      by (simp_all add: tokenKey_def)
    moreover have "self sa = self st" using assms(3) by simp
    moreover have "renewTokenWithNeeded e url m b h st = (Inl err, sb)"
      using that i1 by (simp add: renewTokenWithNeeded_def)
    ultimately show ?thesis by simp
  qed
  have C: "renewTokenWithNeeded e url m b h st
              = (parse_response rb, sb\<lparr>sent := sent sb @ [api_request authb url m b h]\<rparr>)
            \<and> (\<exists>t. text_of (nsRefreshToken (self st)) = Some t
                    \<and> sent sb = sent sa @ [token_request (self st) t ''refresh_token''])
            \<and> (status rb = 401 \<longrightarrow> parse_response rb = Inl (BaseError (statusText rb)))"
    if "status ra = 401" "refreshToken e sa = (Inr a, sb)" "getAuthHeader (self sb) = Inr authb"
       "server e (sent sb) (api_request authb url m b h) = Resolved rb"
  proof -
    from that(2) have "requestAuthorizationToken e (nsRefreshToken (self sa)) ''refresh_token'' sa
        = (Inr a, sb)" by (simp add: refreshToken_def)
    from requestAuthorizationToken_Inr[OF this]
    have "\<exists>t. text_of (nsRefreshToken (self sa)) = Some t
            \<and> sent sb = sent sa @ [token_request (self sa) t ''refresh_token'']" .
    moreover have "self sa = self st" using assms(3) by simp
    moreover have "internalRequest e url m b h sb
        = (Inr rb, sb\<lparr>sent := sent sb @ [api_request authb url m b h]\<rparr>)"
      using that(3,4) by (rule internalRequest_Resolved)
    then have "renewTokenWithNeeded e url m b h st
              = (parse_response rb, sb\<lparr>sent := sent sb @ [api_request authb url m b h]\<rparr>)"
      using that(1,2) i1 by (simp add: renewTokenWithNeeded_def)
    ultimately show ?thesis by (simp add: parse_response_def)
  qed
  from A B C show ?thesis by blast
qed

text \<open>
  C2, three instances: a renewal followed by the replay, a first answer that is not 401,
  and a refresh that fails.
\<close>

theorem renewTokenWithNeeded_refresh_witness:
  "renewTokenWithNeeded server_renew (req_url sample_get) ''GET'' None [] sample_state
     = (Inr (JObj [(''items'', JArr [])]),
        \<lparr>self = sample_service\<lparr>nsAccessToken := Some (JStr ''B''), nsRefreshToken := Some (JStr ''R'')\<rparr>,
         sent = [sample_get, token_request sample_service ''null'' ''refresh_token'',
                 sample_get\<lparr>req_headers := [(''Authorization'', ''Bearer B'')]\<rparr>],
         files = []\<rparr>)
   \<and> renewTokenWithNeeded server_renew (req_url sample_get) ''GET'' None []
        (sample_state\<lparr>self := sample_service\<lparr>nsAccessToken := Some (JStr ''B'')\<rparr>\<rparr>)
     = (Inr (JObj [(''items'', JArr [])]),
        \<lparr>self = sample_service\<lparr>nsAccessToken := Some (JStr ''B'')\<rparr>,
         sent = [sample_get\<lparr>req_headers := [(''Authorization'', ''Bearer B'')]\<rparr>],
         files = []\<rparr>)
   \<and> renewTokenWithNeeded server_expired (req_url sample_get) ''GET'' None [] sample_state
     = (Inl (BaseError ''Cannot get the NetSuite authorization refresh_token''),
        sample_state\<lparr>sent := [sample_get, token_request sample_service ''null'' ''refresh_token'']\<rparr>)"
proof -
  let ?u = "req_url sample_get"
  let ?sB = "sample_service\<lparr>nsAccessToken := Some (JStr ''B''), nsRefreshToken := Some (JStr ''R'')\<rparr>"
  let ?st1 = "sample_state\<lparr>sent := sent sample_state @ [api_request [(''Authorization'', ''Bearer A'')] ?u ''GET'' None []]\<rparr>"
  let ?st2 = "\<lparr>self = ?sB, sent = [sample_get, token_request sample_service ''null'' ''refresh_token''], files = []\<rparr>"
  have a1: "getAuthHeader (self sample_state) = Inr [(''Authorization'', ''Bearer A'')]" by code_simp
  have q1: "api_request [(''Authorization'', ''Bearer A'')] ?u ''GET'' None [] = sample_get" by code_simp
  have q2: "api_request [(''Authorization'', ''Bearer B'')] ?u ''GET'' None []
            = sample_get\<lparr>req_headers := [(''Authorization'', ''Bearer B'')]\<rparr>" by code_simp
  have s1: "server server_renew (sent sample_state) (api_request [(''Authorization'', ''Bearer A'')] ?u ''GET'' None [])
            = Resolved expired_reply" by code_simp
  have e1: "status expired_reply = 401" by (simp add: expired_reply_def)
  have rf: "refreshToken server_renew ?st1 = (Inr (JObj [(''access_token'', JStr ''B''), (''refresh_token'', JStr ''R'')]), ?st2)"
    by code_simp
  have a2: "getAuthHeader (self ?st2) = Inr [(''Authorization'', ''Bearer B'')]" by code_simp
  have s2: "server server_renew (sent ?st2) (api_request [(''Authorization'', ''Bearer B'')] ?u ''GET'' None [])
            = Resolved account_reply" by code_simp
  have p2: "parse_response account_reply = Inr (JObj [(''items'', JArr [])])" by code_simp
  from renewTokenWithNeeded_refresh[OF a1 s1 refl, where sb = ?st2
      and authb = "[(''Authorization'', ''Bearer B'')]" and rb = account_reply
      and a = "JObj [(''access_token'', JStr ''B''), (''refresh_token'', JStr ''R'')]"]
    e1 rf a2 s2
  have "renewTokenWithNeeded server_renew ?u ''GET'' None [] sample_state
      = (parse_response account_reply,
         ?st2\<lparr>sent := sent ?st2 @ [api_request [(''Authorization'', ''Bearer B'')] ?u ''GET'' None []]\<rparr>)"
    by blast
  then have first: "renewTokenWithNeeded server_renew ?u ''GET'' None [] sample_state
     = (Inr (JObj [(''items'', JArr [])]),
        \<lparr>self = ?sB,
         sent = [sample_get, token_request sample_service ''null'' ''refresh_token'',
                 sample_get\<lparr>req_headers := [(''Authorization'', ''Bearer B'')]\<rparr>],
         files = []\<rparr>)"
    by (simp add: p2 q2)
  let ?stB = "sample_state\<lparr>self := sample_service\<lparr>nsAccessToken := Some (JStr ''B'')\<rparr>\<rparr>"
  have a3: "getAuthHeader (self ?stB) = Inr [(''Authorization'', ''Bearer B'')]" by code_simp
  have s3: "server server_renew (sent ?stB) (api_request [(''Authorization'', ''Bearer B'')] ?u ''GET'' None [])
            = Resolved account_reply" by code_simp
  have e3: "status account_reply \<noteq> 401" by (simp add: account_reply_def)
  from renewTokenWithNeeded_refresh[OF a3 s3 refl] e3
  have "renewTokenWithNeeded server_renew ?u ''GET'' None [] ?stB
      = (parse_response account_reply,
         ?stB\<lparr>sent := sent ?stB @ [api_request [(''Authorization'', ''Bearer B'')] ?u ''GET'' None []]\<rparr>)"
    by blast
  then have second: "renewTokenWithNeeded server_renew ?u ''GET'' None [] ?stB
     = (Inr (JObj [(''items'', JArr [])]),
        \<lparr>self = sample_service\<lparr>nsAccessToken := Some (JStr ''B'')\<rparr>,
         sent = [sample_get\<lparr>req_headers := [(''Authorization'', ''Bearer B'')]\<rparr>],
         files = []\<rparr>)"
    by (simp add: p2 q2 sample_state_def)
  let ?st3 = "sample_state\<lparr>sent := [sample_get, token_request sample_service ''null'' ''refresh_token'']\<rparr>"
  have s4: "server server_expired (sent sample_state) (api_request [(''Authorization'', ''Bearer A'')] ?u ''GET'' None [])
            = Resolved expired_reply" by code_simp
  have rx: "refreshToken server_expired ?st1
            = (Inl (BaseError ''Cannot get the NetSuite authorization refresh_token''), ?st3)"
    by code_simp
  from renewTokenWithNeeded_refresh[OF a1 s4 refl, where sb = ?st3
      and err = "BaseError ''Cannot get the NetSuite authorization refresh_token''"] e1 rx
  have third: "renewTokenWithNeeded server_expired ?u ''GET'' None [] sample_state
     = (Inl (BaseError ''Cannot get the NetSuite authorization refresh_token''), ?st3)"
    by blast
  from first second third show ?thesis by blast
qed

subsection \<open>The retry loop: \<open>#requestApi\<close>\<close>

lemma requestApi_loop_last:
  "requestApi_loop e url m b h 4 st = (Inl (BaseError (''Max retries error in request ['' @ m @ '']: '' @ url)), st)"
  by (subst requestApi_loop.simps) (simp add: MAX_RETRIES_def)

lemma requestApi_unroll:
  "requestApi e url m b hs st =
     (let h = default_headers hs in
      case requestApi_try e url m b h st of
        (Break r, s1) \<Rightarrow> (Inr r, s1)
      | (Return v, s1) \<Rightarrow> (Inr v, s1)
      | (Caught e1, s1) \<Rightarrow>
          (case requestApi_try e url m b h s1 of
             (Break r, s2) \<Rightarrow> (Inr r, s2)
           | (Return v, s2) \<Rightarrow> (Inr v, s2)
           | (Caught e2, s2) \<Rightarrow>
               (case requestApi_try e url m b h s2 of
                  (Break r, s3) \<Rightarrow> (Inr r, s3)
                | (Return v, s3) \<Rightarrow> (Inr v, s3)
                | (Caught e3, s3) \<Rightarrow>
                    (Inl (BaseError (''Max retries error in request ['' @ m @ '']: '' @ url)), s3))))"
proof -
  have 1: "requestApi_loop e url m b h 1 st =
     (case requestApi_try e url m b h st of
        (Break r, st') \<Rightarrow> (Inr r, st')
      | (Return v, st') \<Rightarrow> (Inr v, st')
      | (Caught err, st') \<Rightarrow> requestApi_loop e url m b h 2 st')" for h st
    by (subst requestApi_loop.simps) (simp add: MAX_RETRIES_def split: prod.splits pass.splits)
  have 2: "requestApi_loop e url m b h 2 st =
     (case requestApi_try e url m b h st of
        (Break r, st') \<Rightarrow> (Inr r, st')
      | (Return v, st') \<Rightarrow> (Inr v, st')
      | (Caught err, st') \<Rightarrow> requestApi_loop e url m b h 3 st')" for h st
    by (subst requestApi_loop.simps) (simp add: MAX_RETRIES_def split: prod.splits pass.splits)
  have 3: "requestApi_loop e url m b h 3 st =
     (case requestApi_try e url m b h st of
        (Break r, st') \<Rightarrow> (Inr r, st')
      | (Return v, st') \<Rightarrow> (Inr v, st')
      | (Caught err, st') \<Rightarrow> requestApi_loop e url m b h 4 st')" for h st
    by (subst requestApi_loop.simps) (simp add: MAX_RETRIES_def split: prod.splits pass.splits)
  show ?thesis
    unfolding requestApi_def Let_def
    by (simp only: 1 2 3 requestApi_loop_last)
qed

lemma requestApi_passes_bound: "requestApi_passes e url m b h retry st \<le> Suc MAX_RETRIES - retry"
proof (induction e url m b h retry st rule: requestApi_passes.induct)
  case (1 e url m b h retry st)
  show ?case
  proof (cases "retry \<le> MAX_RETRIES")
    case False
    then show ?thesis by (subst requestApi_passes.simps) simp
  next
    case True
    obtain p st' where t: "requestApi_try e url m b h st = (p, st')"
      by (cases "requestApi_try e url m b h st")
    show ?thesis
    proof (cases p)
      case (Caught err)
      with 1[OF True t[symmetric]] t True show ?thesis
        by (subst requestApi_passes.simps) (auto simp: MAX_RETRIES_def)
    qed (use t True in \<open>subst requestApi_passes.simps, simp add: MAX_RETRIES_def\<close>)+
  qed
qed

text \<open>
  C1, as stated: the first three failures are each retried and the fourth one surfaces
  the error. With the remote side out of reach the loop makes three passes and sends
  three requests: the third failure is not retried, it ends the call.
\<close>

theorem requestApi_third_failure_is_final:
  "requestApi server_down ''/record/v1/account'' ''GET'' None None sample_state
     = (Inl (BaseError ''Max retries error in request [GET]: /record/v1/account''),
        sample_state\<lparr>sent := [sample_get, sample_get, sample_get]\<rparr>)
   \<and> requestApi_passes server_down ''/record/v1/account'' ''GET'' None [] 1 sample_state = 3"
  by code_simp

text \<open>
  C1, amended. The loop makes at most three passes. A pass that ends in \<open>break\<close> ends
  the call at once with the parsed body, be it the first, the second or the third; a
  failure of the first or of the second pass is caught and followed by the next pass;
  after a third failure the call fails with the error that names method and URL, and no
  fourth pass is made.
\<close>

theorem requestApi_retries:
  assumes "h = default_headers hs"
  shows "requestApi_passes e url m b h 1 st \<le> 3
   \<and> (requestApi_try e url m b h st = (Break r, sa) \<longrightarrow>
        requestApi e url m b hs st = (Inr r, sa))
   \<and> (requestApi_try e url m b h st = (Caught ea, sa)
       \<and> requestApi_try e url m b h sa = (Break r, sb) \<longrightarrow>
        requestApi e url m b hs st = (Inr r, sb))
   \<and> (requestApi_try e url m b h st = (Caught ea, sa)
       \<and> requestApi_try e url m b h sa = (Caught eb, sb)
       \<and> requestApi_try e url m b h sb = (Break r, sc) \<longrightarrow>
        requestApi e url m b hs st = (Inr r, sc))
   \<and> (requestApi_try e url m b h st = (Caught ea, sa)
       \<and> requestApi_try e url m b h sa = (Caught eb, sb)
       \<and> requestApi_try e url m b h sb = (Caught ec, sc) \<longrightarrow>
        requestApi e url m b hs st
          = (Inl (BaseError (''Max retries error in request ['' @ m @ '']: '' @ url)), sc)
        \<and> requestApi_passes e url m b h 1 st = 3)"
proof -
  have p: "requestApi_passes e url m b h 1 st \<le> 3"
    using requestApi_passes_bound[of e url m b h 1 st] by (simp add: MAX_RETRIES_def)
  have c: "requestApi_passes e url m b h 1 st = 3"
    if "requestApi_try e url m b h st = (Caught ea, sa)"
       "requestApi_try e url m b h sa = (Caught eb, sb)"
       "requestApi_try e url m b h sb = (Caught ec, sc)"
  proof -
    have "requestApi_passes e url m b h 4 sc = 0"
      by (subst requestApi_passes.simps) (simp add: MAX_RETRIES_def)
    then have "requestApi_passes e url m b h 3 sb = 1"
      using that(3) by (subst requestApi_passes.simps) (simp add: MAX_RETRIES_def split: prod.splits pass.splits)
    then have "requestApi_passes e url m b h 2 sa = 2"
      using that(2) by (subst requestApi_passes.simps) (simp add: MAX_RETRIES_def split: prod.splits pass.splits)
    then show ?thesis
      using that(1) by (subst requestApi_passes.simps) (simp add: MAX_RETRIES_def split: prod.splits pass.splits)
  qed
  show ?thesis using p c assms by (auto simp: requestApi_unroll)
qed

text \<open>
  C1, two instances: a first pass that fails and a second that succeeds, and three
  passes that fail.
\<close>

theorem requestApi_retries_witness:
  "requestApi server_flaky ''/record/v1/account'' ''GET'' None None sample_state
     = (Inr (JObj [(''items'', JArr [])]), sample_state\<lparr>sent := [sample_get, sample_get]\<rparr>)
   \<and> requestApi server_down ''/record/v1/account'' ''GET'' None None sample_state
     = (Inl (BaseError ''Max retries error in request [GET]: /record/v1/account''),
        sample_state\<lparr>sent := [sample_get, sample_get, sample_get]\<rparr>)"
proof -
  let ?u = "''/record/v1/account''"
  let ?s1 = "sample_state\<lparr>sent := [sample_get]\<rparr>"
  let ?s2 = "sample_state\<lparr>sent := [sample_get, sample_get]\<rparr>"
  let ?s3 = "sample_state\<lparr>sent := [sample_get, sample_get, sample_get]\<rparr>"
  have h: "[] = default_headers None" by (simp add: default_headers_def)
  have f1: "requestApi_try server_flaky ?u ''GET'' None [] sample_state = (Caught FetchError, ?s1)"
    by code_simp
  have f2: "requestApi_try server_flaky ?u ''GET'' None [] ?s1 = (Break (JObj [(''items'', JArr [])]), ?s2)"
    by code_simp
  have d1: "requestApi_try server_down ?u ''GET'' None [] sample_state = (Caught FetchError, ?s1)"
    by code_simp
  have d2: "requestApi_try server_down ?u ''GET'' None [] ?s1 = (Caught FetchError, ?s2)"
    by code_simp
  have d3: "requestApi_try server_down ?u ''GET'' None [] ?s2 = (Caught FetchError, ?s3)"
    by code_simp
  from requestApi_retries[OF h, where e = server_flaky and url = ?u and m = "''GET''" and b = None
      and st = sample_state and ea = FetchError and sa = ?s1 and r = "JObj [(''items'', JArr [])]" and sb = ?s2]
    f1 f2
  have a: "requestApi server_flaky ?u ''GET'' None None sample_state = (Inr (JObj [(''items'', JArr [])]), ?s2)"
    by blast
  from requestApi_retries[OF h, where e = server_down and url = ?u and m = "''GET''" and b = None
      and st = sample_state and ea = FetchError and sa = ?s1 and eb = FetchError and sb = ?s2
      and ec = FetchError and sc = ?s3]
    d1 d2 d3
  have b: "requestApi server_down ?u ''GET'' None None sample_state
     = (Inl (BaseError (''Max retries error in request ['' @ ''GET'' @ '']: '' @ ?u)), ?s3)"
    by blast
  from a b show ?thesis by simp
qed

lemma truthy_get_field: "truthy er \<Longrightarrow> \<exists>m. get_field er k = Inr m"
  by (cases "(er, k)" rule: get_field.cases) auto

text \<open>
  C3, as stated: a payload with an \<open>error\<close> field makes the executor fail with the
  error that names method and URL as a request error. It does not: that error is
  thrown inside the loop, which catches it, and what the caller gets after three such
  payloads is the error of the exhausted retries.
\<close>

theorem requestApi_error_field_is_retried:
  "fst (requestApi server_error ''/record/v1/account'' ''GET'' None None sample_state)
     = Inl (BaseError ''Max retries error in request [GET]: /record/v1/account'')
   \<and> fst (requestApi server_error ''/record/v1/account'' ''GET'' None None sample_state)
     \<noteq> Inl (BaseError ''Error in request [GET]: /record/v1/account'')"
  by code_simp

lemma error_message_Some:
  "error_message e url m b h s = Some (t, sn) \<longleftrightarrow>
     (\<exists>response er msg.
        renewTokenWithNeeded e (getApiUrl (self s) @ url) m b h s = (Inr response, sn)
        \<and> get_field (Some response) ''error'' = Inr er \<and> truthy er
        \<and> get_field er ''message'' = Inr msg \<and> text_of msg = Some t)"
  by (auto simp: error_message_def split: prod.splits sum.splits option.splits if_splits)

lemma requestApi_try_error_message:
  "error_message e url m b h s = Some (t, sn) \<Longrightarrow>
   requestApi_try e url m b h s =
     (if contains marker t then (Return JNull, sn)
      else (Caught (BaseError (''Error in request ['' @ m @ '']: '' @ url)), sn))"
  by (auto simp: error_message_Some requestApi_try_def)

text \<open>
  C3, amended. Let a pass of the loop meet a parsed payload whose \<open>error\<close> field is
  truthy, and let the message of that error, as text, be \<open>t\<close>. If \<open>t\<close> contains the
  marker the pass ends in \<open>return null\<close>, and the call returns \<open>null\<close> at once, be it
  the first pass, or the second or the third after failures. If not, the pass throws the
  error that names method and URL and the loop catches it: after the first pass the call
  goes on with the second, after the second with the third, and when three passes have
  failed, by such a payload or otherwise, the call fails with the error of the exhausted
  retries.
\<close>

theorem requestApi_error_field:
  assumes "h = default_headers hs"
  shows
   "(error_message e url m b h s = Some (t, sn) \<longleftrightarrow>
      (\<exists>response er msg.
        renewTokenWithNeeded e (getApiUrl (self s) @ url) m b h s = (Inr response, sn)
        \<and> get_field (Some response) ''error'' = Inr er \<and> truthy er
        \<and> get_field er ''message'' = Inr msg \<and> text_of msg = Some t))
    \<and> (error_message e url m b h s = Some (t, sn) \<and> contains marker t \<longrightarrow>
          requestApi_try e url m b h s = (Return JNull, sn))
    \<and> (error_message e url m b h s = Some (t, sn) \<and> \<not> contains marker t \<longrightarrow>
          requestApi_try e url m b h s
            = (Caught (BaseError (''Error in request ['' @ m @ '']: '' @ url)), sn))
    \<and> (error_message e url m b h st = Some (t, sa) \<and> contains marker t \<longrightarrow>
          requestApi e url m b hs st = (Inr JNull, sa))
    \<and> (requestApi_try e url m b h st = (Caught ea, sa)
        \<and> error_message e url m b h sa = Some (t, sb) \<and> contains marker t \<longrightarrow>
          requestApi e url m b hs st = (Inr JNull, sb))
    \<and> (requestApi_try e url m b h st = (Caught ea, sa)
        \<and> requestApi_try e url m b h sa = (Caught eb, sb)
        \<and> error_message e url m b h sb = Some (t, sc) \<and> contains marker t \<longrightarrow>
          requestApi e url m b hs st = (Inr JNull, sc))
    \<and> (error_message e url m b h st = Some (t, sa) \<and> \<not> contains marker t \<longrightarrow>
          requestApi e url m b hs st = requestApi_loop e url m b h 2 sa)
    \<and> (error_message e url m b h st = Some (t, sa) \<and> \<not> contains marker t
        \<and> requestApi_try e url m b h sa = (Caught eb, sb)
        \<and> requestApi_try e url m b h sb = (Caught ec, sc) \<longrightarrow>
          requestApi e url m b hs st
            = (Inl (BaseError (''Max retries error in request ['' @ m @ '']: '' @ url)), sc))
    \<and> (error_message e url m b h st = Some (t, sa) \<and> \<not> contains marker t
        \<and> error_message e url m b h sa = Some (tb, sb) \<and> \<not> contains marker tb
        \<and> error_message e url m b h sb = Some (tc, sc) \<and> \<not> contains marker tc \<longrightarrow>
          requestApi e url m b hs st
            = (Inl (BaseError (''Max retries error in request ['' @ m @ '']: '' @ url)), sc))
    \<and> (requestApi_try e url m b h st = (Caught ea, sa)
        \<and> error_message e url m b h sa = Some (t, sb) \<and> \<not> contains marker t \<longrightarrow>
          requestApi e url m b hs st = requestApi_loop e url m b h 3 sb)
    \<and> (requestApi_try e url m b h st = (Caught ea, sa)
        \<and> requestApi_try e url m b h sa = (Caught eb, sb)
        \<and> error_message e url m b h sb = Some (t, sc) \<and> \<not> contains marker t \<longrightarrow>
          requestApi e url m b hs st
            = (Inl (BaseError (''Max retries error in request ['' @ m @ '']: '' @ url)), sc))"
proof -
  note u = requestApi_unroll[of e url m b hs st, unfolded Let_def assms[symmetric]]
  note tr = requestApi_try_error_message
  have 1: "error_message e url m b h s = Some (t, sn) \<longleftrightarrow>
      (\<exists>response er msg.
        renewTokenWithNeeded e (getApiUrl (self s) @ url) m b h s = (Inr response, sn)
        \<and> get_field (Some response) ''error'' = Inr er \<and> truthy er
        \<and> get_field er ''message'' = Inr msg \<and> text_of msg = Some t)"
    by (rule error_message_Some)
  have 2: "requestApi_try e url m b h s = (Return JNull, sn)"
    if "error_message e url m b h s = Some (t, sn)" "contains marker t"
    using tr[OF that(1)] that(2) by simp
  have 3: "requestApi_try e url m b h s
            = (Caught (BaseError (''Error in request ['' @ m @ '']: '' @ url)), sn)"
    if "error_message e url m b h s = Some (t, sn)" "\<not> contains marker t"
    using tr[OF that(1)] that(2) by simp
  have 4: "requestApi e url m b hs st = (Inr JNull, sa)"
    if "error_message e url m b h st = Some (t, sa)" "contains marker t"
    using tr[OF that(1)] that(2) by (simp add: u)
  have 5: "requestApi e url m b hs st = (Inr JNull, sb)"
    if "requestApi_try e url m b h st = (Caught ea, sa)"
       "error_message e url m b h sa = Some (t, sb)" "contains marker t"
    using that(1) tr[OF that(2)] that(3) by (simp add: u)
  have 6: "requestApi e url m b hs st = (Inr JNull, sc)"
    if "requestApi_try e url m b h st = (Caught ea, sa)"
       "requestApi_try e url m b h sa = (Caught eb, sb)"
       "error_message e url m b h sb = Some (t, sc)" "contains marker t"
    using that(1,2) tr[OF that(3)] that(4) by (simp add: u)
  have l: "requestApi e url m b hs st =
     (case requestApi_try e url m b h st of
        (Break r, sx) \<Rightarrow> (Inr r, sx)
      | (Return v, sx) \<Rightarrow> (Inr v, sx)
      | (Caught err, sx) \<Rightarrow> requestApi_loop e url m b h 2 sx)"
    unfolding requestApi_def assms(1)[symmetric]
    by (subst requestApi_loop.simps) (simp add: MAX_RETRIES_def split: prod.splits pass.splits)
  have 7: "requestApi e url m b hs st = requestApi_loop e url m b h 2 sa"
    if "error_message e url m b h st = Some (t, sa)" "\<not> contains marker t"
    using tr[OF that(1)] that(2) by (simp add: l)
  have 8: "requestApi e url m b hs st
            = (Inl (BaseError (''Max retries error in request ['' @ m @ '']: '' @ url)), sc)"
    if "error_message e url m b h st = Some (t, sa)" "\<not> contains marker t"
       "requestApi_try e url m b h sa = (Caught eb, sb)"
       "requestApi_try e url m b h sb = (Caught ec, sc)"
    using tr[OF that(1)] that(2,3,4) by (simp add: u)
  have 9: "requestApi e url m b hs st
            = (Inl (BaseError (''Max retries error in request ['' @ m @ '']: '' @ url)), sc)"
    if "error_message e url m b h st = Some (t, sa)" "\<not> contains marker t"
       "error_message e url m b h sa = Some (tb, sb)" "\<not> contains marker tb"
       "error_message e url m b h sb = Some (tc, sc)" "\<not> contains marker tc"
    using tr[OF that(1)] tr[OF that(3)] tr[OF that(5)] that(2,4,6) by (simp add: u)
  have k: "requestApi_loop e url m b h 2 sa =
     (case requestApi_try e url m b h sa of
        (Break r, sx) \<Rightarrow> (Inr r, sx)
      | (Return v, sx) \<Rightarrow> (Inr v, sx)
      | (Caught err, sx) \<Rightarrow> requestApi_loop e url m b h 3 sx)"
    by (subst requestApi_loop.simps) (simp add: MAX_RETRIES_def split: prod.splits pass.splits)
  have 10: "requestApi e url m b hs st = requestApi_loop e url m b h 3 sb"
    if "requestApi_try e url m b h st = (Caught ea, sa)"
       "error_message e url m b h sa = Some (t, sb)" "\<not> contains marker t"
  proof -
    have "requestApi_try e url m b h sa
        = (Caught (BaseError (''Error in request ['' @ m @ '']: '' @ url)), sb)"
      using tr[OF that(2)] that(3) by simp
    then show ?thesis by (simp only: l k that(1) prod.case pass.case)
  qed
  have 11: "requestApi e url m b hs st
            = (Inl (BaseError (''Max retries error in request ['' @ m @ '']: '' @ url)), sc)"
    if "requestApi_try e url m b h st = (Caught ea, sa)"
       "requestApi_try e url m b h sa = (Caught eb, sb)"
       "error_message e url m b h sb = Some (t, sc)" "\<not> contains marker t"
    using that(1,2) tr[OF that(3)] that(4) by (simp add: u)
  from 1 2 3 4 5 6 7 8 9 10 11 show ?thesis by blast
qed

text \<open>
  C3, instances: the transient error met on the first pass, on the second and on the
  third, an application error met three times, and an application error met on the
  third pass after two failed requests.
\<close>

theorem requestApi_error_field_witness:
  "requestApi (server_soft_after 0) ''/q'' ''GET'' None None sample_state
     = (Inr JNull, sample_state\<lparr>sent := replicate 1 (sample_get\<lparr>req_url := getApiUrl sample_service @ ''/q''\<rparr>)\<rparr>)
   \<and> requestApi (server_soft_after 1) ''/q'' ''GET'' None None sample_state
     = (Inr JNull, sample_state\<lparr>sent := replicate 2 (sample_get\<lparr>req_url := getApiUrl sample_service @ ''/q''\<rparr>)\<rparr>)
   \<and> requestApi (server_soft_after 2) ''/q'' ''GET'' None None sample_state
     = (Inr JNull, sample_state\<lparr>sent := replicate 3 (sample_get\<lparr>req_url := getApiUrl sample_service @ ''/q''\<rparr>)\<rparr>)
   \<and> requestApi_try server_error ''/q'' ''GET'' None [] sample_state
     = (Caught (BaseError ''Error in request [GET]: /q''),
        sample_state\<lparr>sent := replicate 1 (sample_get\<lparr>req_url := getApiUrl sample_service @ ''/q''\<rparr>)\<rparr>)
   \<and> requestApi server_error ''/q'' ''GET'' None None sample_state
     = (Inl (BaseError ''Max retries error in request [GET]: /q''),
        sample_state\<lparr>sent := replicate 3 (sample_get\<lparr>req_url := getApiUrl sample_service @ ''/q''\<rparr>)\<rparr>)
   \<and> requestApi (server_error_after 2) ''/q'' ''GET'' None None sample_state
     = (Inl (BaseError ''Max retries error in request [GET]: /q''),
        sample_state\<lparr>sent := replicate 3 (sample_get\<lparr>req_url := getApiUrl sample_service @ ''/q''\<rparr>)\<rparr>)"
proof -
  let ?q = "sample_get\<lparr>req_url := getApiUrl sample_service @ ''/q''\<rparr>"
  let ?sa = "sample_state\<lparr>sent := replicate 1 ?q\<rparr>"
  let ?sb = "sample_state\<lparr>sent := replicate 2 ?q\<rparr>"
  let ?sc = "sample_state\<lparr>sent := replicate 3 ?q\<rparr>"
  let ?soft = "''Unexpected: IO error during request payload read.''"
  let ?bad = "''Invalid search query''"
  have h: "[] = default_headers None" by (simp add: default_headers_def)
  have c1: "contains marker ?soft" by code_simp
  have c2: "\<not> contains marker ?bad" by code_simp
  have a0: "error_message (server_soft_after 0) ''/q'' ''GET'' None [] sample_state = Some (?soft, ?sa)"
    by code_simp
  have b0: "requestApi_try (server_soft_after 1) ''/q'' ''GET'' None [] sample_state = (Caught FetchError, ?sa)"
    by code_simp
  have b1: "error_message (server_soft_after 1) ''/q'' ''GET'' None [] ?sa = Some (?soft, ?sb)"
    by code_simp
  have d0: "requestApi_try (server_soft_after 2) ''/q'' ''GET'' None [] sample_state = (Caught FetchError, ?sa)"
    by code_simp
  have d1: "requestApi_try (server_soft_after 2) ''/q'' ''GET'' None [] ?sa = (Caught FetchError, ?sb)"
    by code_simp
  have d2: "error_message (server_soft_after 2) ''/q'' ''GET'' None [] ?sb = Some (?soft, ?sc)"
    by code_simp
  have e0: "error_message server_error ''/q'' ''GET'' None [] sample_state = Some (?bad, ?sa)"
    by code_simp
  have e1: "error_message server_error ''/q'' ''GET'' None [] ?sa = Some (?bad, ?sb)"
    by code_simp
  have e2: "error_message server_error ''/q'' ''GET'' None [] ?sb = Some (?bad, ?sc)"
    by code_simp
  from requestApi_error_field[OF h, where e = "server_soft_after 0" and url = "''/q''"
      and m = "''GET''" and b = None and st = sample_state and t = ?soft and sa = ?sa] a0 c1
  have 1: "requestApi (server_soft_after 0) ''/q'' ''GET'' None None sample_state = (Inr JNull, ?sa)"
    by blast
  from requestApi_error_field[OF h, where e = "server_soft_after 1" and url = "''/q''"
      and m = "''GET''" and b = None and st = sample_state and t = ?soft and sa = ?sa
      and ea = FetchError and sb = ?sb] b0 b1 c1
  have 2: "requestApi (server_soft_after 1) ''/q'' ''GET'' None None sample_state = (Inr JNull, ?sb)"
    by blast
  from requestApi_error_field[OF h, where e = "server_soft_after 2" and url = "''/q''"
      and m = "''GET''" and b = None and st = sample_state and t = ?soft and sa = ?sa
      and ea = FetchError and sb = ?sb and eb = FetchError and sc = ?sc] d0 d1 d2 c1
  have 3: "requestApi (server_soft_after 2) ''/q'' ''GET'' None None sample_state = (Inr JNull, ?sc)"
    by blast
  from requestApi_error_field[OF h, where e = server_error and url = "''/q''"
      and m = "''GET''" and b = None and s = sample_state and t = ?bad and sn = ?sa] e0 c2
  have "requestApi_try server_error ''/q'' ''GET'' None [] sample_state
     = (Caught (BaseError (''Error in request ['' @ ''GET'' @ '']: '' @ ''/q'')), ?sa)"
    by blast
  then have 4: "requestApi_try server_error ''/q'' ''GET'' None [] sample_state
     = (Caught (BaseError ''Error in request [GET]: /q''), ?sa)" by simp
  from requestApi_error_field[OF h, where e = server_error and url = "''/q''"
      and m = "''GET''" and b = None and st = sample_state and t = ?bad and sa = ?sa
      and tb = ?bad and sb = ?sb and tc = ?bad and sc = ?sc] e0 e1 e2 c2
  have "requestApi server_error ''/q'' ''GET'' None None sample_state
     = (Inl (BaseError (''Max retries error in request ['' @ ''GET'' @ '']: '' @ ''/q'')), ?sc)"
    by blast
  then have 5: "requestApi server_error ''/q'' ''GET'' None None sample_state
     = (Inl (BaseError ''Max retries error in request [GET]: /q''), ?sc)" by simp
  have f0: "requestApi_try (server_error_after 2) ''/q'' ''GET'' None [] sample_state = (Caught FetchError, ?sa)"
    by code_simp
  have f1: "requestApi_try (server_error_after 2) ''/q'' ''GET'' None [] ?sa = (Caught FetchError, ?sb)"
    by code_simp
  have f2: "error_message (server_error_after 2) ''/q'' ''GET'' None [] ?sb = Some (?bad, ?sc)"
    by code_simp
  from requestApi_error_field[OF h, where e = "server_error_after 2" and url = "''/q''"
      and m = "''GET''" and b = None and st = sample_state and t = ?bad and sa = ?sa
      and ea = FetchError and sb = ?sb and eb = FetchError and sc = ?sc] f0 f1 f2 c2
  have "requestApi (server_error_after 2) ''/q'' ''GET'' None None sample_state
     = (Inl (BaseError (''Max retries error in request ['' @ ''GET'' @ '']: '' @ ''/q'')), ?sc)"
    by blast
  then have 6: "requestApi (server_error_after 2) ''/q'' ''GET'' None None sample_state
     = (Inl (BaseError ''Max retries error in request [GET]: /q''), ?sc)" by simp
  from 1 2 3 4 5 6 show ?thesis by blast
qed

subsection \<open>The public operations\<close>

text \<open>
  C8, at the input \<open>requestGet('/record/v1/account', {Prefer: 'transient'})\<close>, with
  the remote side out of reach: each of the three requests handed to \<open>fetch\<close> has the
  headers of the caller as its body, and the authorization as its only header.
  \<open>requestDelete\<close> with the same headers sends them as headers.
\<close>

theorem requestGet_headers_become_body:
  "sent (snd (requestGet server_down ''/record/v1/account'' (Some [(''Prefer'', ''transient'')])
                sample_state))
     = replicate 3 (sample_get\<lparr>req_body := Some (PObject [(''Prefer'', ''transient'')])\<rparr>)
   \<and> sent (snd (requestDelete server_down ''/record/v1/account'' None
                    (Some [(''Prefer'', ''transient'')]) sample_state))
     = replicate 3 (sample_get\<lparr>req_method := ''DELETE'',
          req_headers := [(''Authorization'', ''Bearer A''), (''Prefer'', ''transient'')]\<rparr>)"
  by code_simp

subsection \<open>The base64 pattern and the decoding\<close>

lemma isFileInBase64_more:
  "r \<noteq> [] \<Longrightarrow> isFileInBase64 (a # b # c # d # r)
     = (b64_char a \<and> b64_char b \<and> b64_char c \<and> b64_char d \<and> isFileInBase64 r)"
  by (cases r) simp_all

lemma isFileInBase64_four:
  "isFileInBase64 [a, b, c, d] = last_group [a, b, c, d]"
  by (auto simp: last_group_def)

lemma last_group_length: "last_group f \<Longrightarrow> length f = 4"
  by (auto simp: last_group_def)

lemma isFileInBase64_pattern: "isFileInBase64 s \<Longrightarrow> base64_pattern s"
proof (induction s rule: isFileInBase64.induct)
  case (1 a b c d)
  then have "last_group [a, b, c, d]" by (simp only: isFileInBase64_four)
  then have "[a, b, c, d] = concat [] @ [a, b, c, d]
     \<and> list_all (\<lambda>g. length g = 4 \<and> list_all b64_char g) []
     \<and> last_group [a, b, c, d]" by simp
  then show ?case unfolding base64_pattern_def by blast
next
  case (2 a b c d v va)
  then have h: "b64_char a" "b64_char b" "b64_char c" "b64_char d" "base64_pattern (v # va)"
    by simp_all
  from h(5) obtain groups f where g: "v # va = concat groups @ f"
    "list_all (\<lambda>g. length g = 4 \<and> list_all b64_char g) groups" "last_group f"
    unfolding base64_pattern_def by blast
  have "a # b # c # d # v # va = concat ([a, b, c, d] # groups) @ f" using g(1) by simp
  moreover have "list_all (\<lambda>g. length g = 4 \<and> list_all b64_char g) ([a, b, c, d] # groups)"
    using g(2) h by simp
  ultimately show ?case unfolding base64_pattern_def using g(3) by blast
qed simp_all

lemma pattern_isFileInBase64:
  "list_all (\<lambda>g. length g = 4 \<and> list_all b64_char g) groups \<Longrightarrow> last_group f \<Longrightarrow>
   isFileInBase64 (concat groups @ f)"
proof (induction groups)
  case Nil
  from Nil(2) have "length f = 4" by (rule last_group_length)
  then obtain a b c d where f: "f = [a, b, c, d]"
    by (auto simp: length_Suc_conv numeral_eq_Suc)
  with Nil(2) show ?case by (simp only: concat.simps append_Nil isFileInBase64_four)
next
  case (Cons g groups)
  then have "length g = 4" "list_all b64_char g" by simp_all
  then obtain a b c d where g: "g = [a, b, c, d]" "b64_char a" "b64_char b" "b64_char c" "b64_char d"
    by (auto simp: length_Suc_conv numeral_eq_Suc)
  from Cons have ih: "isFileInBase64 (concat groups @ f)" by simp
  from Cons(3) have "concat groups @ f \<noteq> []" using last_group_length by fastforce
  then have "isFileInBase64 (a # b # c # d # concat groups @ f)"
    using g ih isFileInBase64_more[of "concat groups @ f" a b c d] by blast
  with g(1) show ?case by simp
qed

lemma isFileInBase64_iff: "isFileInBase64 s \<longleftrightarrow> base64_pattern s"
  using isFileInBase64_pattern pattern_isFileInBase64 unfolding base64_pattern_def by blast

lemma index_of_nth: "distinct xs \<Longrightarrow> n < length xs \<Longrightarrow> index_of (xs ! n) xs = n"
proof (induction xs arbitrary: n)
  case Nil then show ?case by simp
next
  case (Cons x xs)
  then show ?case by (cases n) auto
qed

lemma b64_chars_facts: "distinct b64_chars" "length b64_chars = 64" "CHR ''='' \<notin> set b64_chars"
  by code_simp+

lemma b64_sym_facts:
  assumes "n < 64"
  shows "b64_val (b64_sym n) = n" "b64_char (b64_sym n)" "b64_sym n \<noteq> CHR ''=''"
proof -
  from assms have m: "n mod 64 = n" by simp
  show "b64_val (b64_sym n) = n"
    unfolding b64_val_def b64_sym_def m using assms b64_chars_facts(1,2) by (simp add: index_of_nth)
  have "b64_sym n \<in> set b64_chars"
    unfolding b64_sym_def m using assms b64_chars_facts(2) by simp
  then show "b64_char (b64_sym n)" "b64_sym n \<noteq> CHR ''=''"
    using b64_chars_facts(3) by (auto simp: b64_char_def)
qed

lemma div_bounds:
  fixes x :: nat
  assumes "x < 256"
  shows "x div 4 < 64" "x div 16 < 16" "x div 64 < 4"
  using assms by (simp_all add: less_mult_imp_div_less)

lemma hi_sextet_div:
  fixes x y :: nat assumes "y < 256" shows "((x mod 4) * 16 + y div 16) div 16 = x mod 4"
  using div_bounds(2)[OF assms] by simp

lemma hi_sextet_mod:
  fixes x y :: nat assumes "y < 256" shows "((x mod 4) * 16 + y div 16) mod 16 = y div 16"
  using div_bounds(2)[OF assms] by simp

lemma lo_sextet_div:
  fixes y z :: nat assumes "z < 256" shows "((y mod 16) * 4 + z div 64) div 4 = y mod 16"
  using div_bounds(3)[OF assms] by simp

lemma lo_sextet_mod:
  fixes y z :: nat assumes "z < 256" shows "((y mod 16) * 4 + z div 64) mod 4 = z div 64"
  using div_bounds(3)[OF assms] by simp

lemma div_mod_join:
  fixes x :: nat
  shows "x div 4 * 4 + x mod 4 = x" "(x div 16) * 16 + x mod 16 = x" "(x div 64) * 64 + x mod 64 = x"
  by simp_all

lemma shift_back:
  fixes x :: nat
  shows "(x mod 4) * 16 div 16 = x mod 4" "(x mod 16) * 4 div 4 = x mod 16"
  by simp_all

lemma sextets:
  fixes x y z :: nat
  assumes "x < 256" "y < 256" "z < 256"
  shows "x div 4 < 64" "(x mod 4) * 16 < 64" "(x mod 4) * 16 + y div 16 < 64"
    "(y mod 16) * 4 < 64" "(y mod 16) * 4 + z div 64 < 64" "z mod 64 < 64"
proof -
  have a: "x mod 4 < 4" "y mod 16 < 16" by simp_all
  note b = div_bounds(2)[OF assms(2)] div_bounds(3)[OF assms(3)]
  show "x div 4 < 64" by (rule div_bounds(1)[OF assms(1)])
  from a(1) show "(x mod 4) * 16 < 64" by linarith
  from a(1) b(1) show "(x mod 4) * 16 + y div 16 < 64" by linarith
  from a(2) show "(y mod 16) * 4 < 64" by linarith
  from a(2) b(2) show "(y mod 16) * 4 + z div 64 < 64" by linarith
  show "z mod 64 < 64" by simp
qed

lemma b64_decode_encode: "list_all (\<lambda>x. x < 256) bs \<Longrightarrow> b64_decode (b64_encode bs) = bs"
proof (induction bs rule: b64_encode.induct)
  case 1
  show ?case by simp
next
  case (2 x)
  then have x: "x < 256" by simp
  note s = sextets(1,2)[OF x x x]
  show ?case
    by (simp add: b64_sym_facts(1)[OF s(1)] b64_sym_facts(1)[OF s(2)] div_mod_join shift_back x)
next
  case (3 x y)
  then have x: "x < 256" and y: "y < 256" by simp_all
  note s = sextets(1,3,4)[OF x y y]
  show ?case
    by (simp add: b64_sym_facts(1)[OF s(1)] b64_sym_facts(1)[OF s(2)] b64_sym_facts(1)[OF s(3)]
          b64_sym_facts(3)[OF s(3)] hi_sextet_div[OF y] hi_sextet_mod[OF y] div_mod_join
          shift_back x y mod_less[OF div_bounds(2)[OF y]])
next
  case (4 x y z r)
  then have x: "x < 256" and y: "y < 256" and z: "z < 256" and r: "list_all (\<lambda>x. x < 256) r"
    by simp_all
  note s = sextets(1,3,5,6)[OF x y z]
  from 4 r have ih: "b64_decode (b64_encode r) = r" by simp
  show ?case
    by (simp add: b64_sym_facts(1)[OF s(1)] b64_sym_facts(1)[OF s(2)] b64_sym_facts(1)[OF s(3)]
          b64_sym_facts(1)[OF s(4)] b64_sym_facts(3)[OF s(3)] b64_sym_facts(3)[OF s(4)]
          hi_sextet_div[OF y] hi_sextet_mod[OF y] lo_sextet_div[OF z] lo_sextet_mod[OF z]
          div_mod_join x y z ih
          mod_less[OF div_bounds(2)[OF y]] mod_less[OF div_bounds(3)[OF z]])
qed

lemma isFileInBase64_encode:
  "bs \<noteq> [] \<Longrightarrow> list_all (\<lambda>x. x < 256) bs \<Longrightarrow> isFileInBase64 (b64_encode bs)"
proof (induction bs rule: b64_encode.induct)
  case 1
  then show ?case by simp
next
  case (2 x)
  then have x: "x < 256" by simp
  note s = sextets(1,2)[OF x x x]
  show ?case by (simp add: b64_sym_facts(2)[OF s(1)] b64_sym_facts(2)[OF s(2)])
next
  case (3 x y)
  then have x: "x < 256" and y: "y < 256" by simp_all
  note s = sextets(1,3,4)[OF x y y]
  show ?case
    by (simp add: b64_sym_facts(2)[OF s(1)] b64_sym_facts(2)[OF s(2)] b64_sym_facts(2)[OF s(3)])
next
  case (4 x y z r)
  then have x: "x < 256" and y: "y < 256" and z: "z < 256" and r: "list_all (\<lambda>x. x < 256) r"
    by simp_all
  note s = sextets(1,3,5,6)[OF x y z]
  note c = b64_sym_facts(2)[OF s(1)] b64_sym_facts(2)[OF s(2)] b64_sym_facts(2)[OF s(3)]
    b64_sym_facts(2)[OF s(4)]
  show ?case
  proof (cases "r = []")
    case True
    then show ?thesis using c by simp
  next
    case False
    with 4 r have ih: "isFileInBase64 (b64_encode r)" by simp
    from False have "b64_encode r \<noteq> []" by (cases r rule: b64_encode.cases) simp_all
    then show ?thesis using c ih by (simp add: isFileInBase64_more del: isFileInBase64.simps)
  qed
qed

subsection \<open>downloadFile\<close>

lemma downloadFile_try_Inr:
  assumes "downloadFile_try e fileId folderPath st = (Inr downloadPath, sf)"
  shows "\<exists>url auth r fileObj content d n.
           getRestletUrl (self st) = Inr url \<and> getAuthHeader (self st) = Inr auth
           \<and> server e (sent st) (download_request url auth fileId) = Resolved r
           \<and> 200 \<le> status r \<and> status r \<le> 299
           \<and> json_body r = Some fileObj
           \<and> get_field (Some fileObj) ''content'' = Inr content
           \<and> contentFile e content = Inr d \<and> file_name fileObj = Inr n
           \<and> downloadPath = resolve e folderPath (normalize n)
           \<and> writable e downloadPath
           \<and> sf = st\<lparr>sent := sent st @ [download_request url auth fileId],
                       files := files st @ [(downloadPath, d)]\<rparr>"
proof -
  from assms obtain url where u: "getRestletUrl (self st) = Inr url"
    by (cases "getRestletUrl (self st)") (auto simp: downloadFile_try_def)
  from assms u obtain auth where a: "getAuthHeader (self st) = Inr auth"
    by (cases "getAuthHeader (self st)") (auto simp: downloadFile_try_def)
  let ?st1 = "st\<lparr>sent := sent st @ [download_request url auth fileId]\<rparr>"
  from assms u a obtain r where r: "server e (sent st) (download_request url auth fileId) = Resolved r"
    by (cases "server e (sent st) (download_request url auth fileId)")
       (auto simp: downloadFile_try_def fetch_def)
  then have f: "fetch e (download_request url auth fileId) st = (Inr r, ?st1)"
    by (rule fetch_Resolved)
  from assms u a f have ok: "200 \<le> status r \<and> status r \<le> 299"
    by (auto simp: downloadFile_try_def split: if_splits)
  from assms u a f ok obtain fileObj where j: "json_body r = Some fileObj"
    by (cases "json_body r") (auto simp: downloadFile_try_def)
  from assms u a f ok j obtain content where c: "get_field (Some fileObj) ''content'' = Inr content"
    by (cases "get_field (Some fileObj) ''content''") (auto simp: downloadFile_try_def)
  from assms u a f ok j c obtain d where d: "contentFile e content = Inr d"
    by (cases "contentFile e content") (auto simp: downloadFile_try_def)
  from assms u a f ok j c d obtain n where n: "file_name fileObj = Inr n"
    by (cases "file_name fileObj") (auto simp: downloadFile_try_def)
  from assms u a f ok j c d n have
    "downloadPath = resolve e folderPath (normalize n) \<and> writable e downloadPath
     \<and> sf = ?st1\<lparr>files := files ?st1 @ [(downloadPath, d)]\<rparr>"
    by (auto simp: downloadFile_try_def Let_def split: if_splits)
  with u a r ok j c d n show ?thesis by auto
qed

lemma contentFile_string:
  "contentFile e (Some (JStr c)) = Inr (if isFileInBase64 c then Bytes (b64_decode c) else Raw c)"
  by (simp add: contentFile_def text_of_def)

lemma downloadFile_string:
  assumes "truthy (nsScript (self st))"
    and "getRestletUrl (self st) = Inr url" and "getAuthHeader (self st) = Inr auth"
    and "server e (sent st) (download_request url auth fileId) = Resolved r"
    and "200 \<le> status r" and "status r \<le> 299"
    and "json_body r = Some fileObj"
    and "get_field (Some fileObj) ''content'' = Inr (Some (JStr c))"
    and "file_name fileObj = Inr n"
    and "writable e (resolve e folderPath (normalize n))"
  shows "downloadFile e fileId folderPath st
     = (Inr (resolve e folderPath (normalize n)),
        st\<lparr>sent := sent st @ [download_request url auth fileId],
           files := files st @ [(resolve e folderPath (normalize n),
                                 if isFileInBase64 c then Bytes (b64_decode c) else Raw c)]\<rparr>)"
proof -
  have f: "fetch e (download_request url auth fileId) st
      = (Inr r, st\<lparr>sent := sent st @ [download_request url auth fileId]\<rparr>)"
    using assms(4) by (rule fetch_Resolved)
  have "downloadFile_try e fileId folderPath st
     = (Inr (resolve e folderPath (normalize n)),
        st\<lparr>sent := sent st @ [download_request url auth fileId],
           files := files st @ [(resolve e folderPath (normalize n),
                                 if isFileInBase64 c then Bytes (b64_decode c) else Raw c)]\<rparr>)"
    using assms(2,3,5-10) f by (simp add: downloadFile_try_def contentFile_string Let_def)
  then show ?thesis using assms(1) by (simp add: downloadFile_def)
qed

text \<open>
  C4. Without a script identifier \<open>downloadFile\<close> throws at once and the state is as
  before: no request has been sent. When it returns a path, one request has been sent,
  its answer held a content and a name \<open>n\<close>, the path is \<open>resolve\<close> of the folder and
  \<open>normalize n\<close>, it is the path returned, and one file has been written there; when
  the content is a string \<open>c\<close>, the file holds the bytes decoded from \<open>c\<close> if \<open>c\<close>
  matches the base64 pattern and \<open>c\<close> itself otherwise. Conversely, with a script
  identifier, an answer with a status from 200 to 299 whose body holds a string content
  and a string name, and a path that can be written, the call returns that path and has
  written that file. \<open>isFileInBase64\<close> holds of exactly the texts of the pattern:
  groups of four base64 characters, the last group ending in up to two padding
  characters. And the base64 encoding of any bytes matches the pattern and is decoded to
  those bytes.
\<close>

theorem downloadFile_writes:
  "(\<not> truthy (nsScript (self st)) \<longrightarrow>
      downloadFile e fileId folderPath st = (Inl (BaseError ''Script is required!''), st))
   \<and> (downloadFile e fileId folderPath st = (Inr downloadPath, sf) \<longrightarrow>
        (\<exists>url auth r fileObj content d n.
           truthy (nsScript (self st))
           \<and> server e (sent st) (download_request url auth fileId) = Resolved r
           \<and> json_body r = Some fileObj
           \<and> get_field (Some fileObj) ''content'' = Inr content \<and> file_name fileObj = Inr n
           \<and> downloadPath = resolve e folderPath (normalize n)
           \<and> sent sf = sent st @ [download_request url auth fileId]
           \<and> files sf = files st @ [(downloadPath, d)]
           \<and> (\<forall>c. content = Some (JStr c) \<longrightarrow>
                 d = (if isFileInBase64 c then Bytes (b64_decode c) else Raw c))
           \<and> self sf = self st))
   \<and> (truthy (nsScript (self st))
       \<and> getRestletUrl (self st) = Inr url \<and> getAuthHeader (self st) = Inr auth
       \<and> server e (sent st) (download_request url auth fileId) = Resolved r
       \<and> 200 \<le> status r \<and> status r \<le> 299
       \<and> json_body r = Some fileObj
       \<and> get_field (Some fileObj) ''content'' = Inr (Some (JStr c))
       \<and> file_name fileObj = Inr n
       \<and> writable e (resolve e folderPath (normalize n)) \<longrightarrow>
        downloadFile e fileId folderPath st
          = (Inr (resolve e folderPath (normalize n)),
             st\<lparr>sent := sent st @ [download_request url auth fileId],
                files := files st @ [(resolve e folderPath (normalize n),
                                      if isFileInBase64 c then Bytes (b64_decode c) else Raw c)]\<rparr>))
   \<and> (isFileInBase64 s \<longleftrightarrow> base64_pattern s)
   \<and> (bs \<noteq> [] \<and> list_all (\<lambda>x. x < 256) bs \<longrightarrow>
        isFileInBase64 (b64_encode bs) \<and> b64_decode (b64_encode bs) = bs)"
proof -
  have 1: "downloadFile e fileId folderPath st = (Inl (BaseError ''Script is required!''), st)"
    if "\<not> truthy (nsScript (self st))"
    using that by (simp add: downloadFile_def)
  have 2: "\<exists>url auth r fileObj content d n.
           truthy (nsScript (self st))
           \<and> server e (sent st) (download_request url auth fileId) = Resolved r
           \<and> json_body r = Some fileObj
           \<and> get_field (Some fileObj) ''content'' = Inr content \<and> file_name fileObj = Inr n
           \<and> downloadPath = resolve e folderPath (normalize n)
           \<and> sent sf = sent st @ [download_request url auth fileId]
           \<and> files sf = files st @ [(downloadPath, d)]
           \<and> (\<forall>c. content = Some (JStr c) \<longrightarrow>
                 d = (if isFileInBase64 c then Bytes (b64_decode c) else Raw c))
           \<and> self sf = self st"
    if d: "downloadFile e fileId folderPath st = (Inr downloadPath, sf)"
  proof -
    from d have t: "truthy (nsScript (self st))"
      by (auto simp: downloadFile_def split: if_splits)
    obtain res sx where tr: "downloadFile_try e fileId folderPath st = (res, sx)"
      by (cases "downloadFile_try e fileId folderPath st")
    from d t tr have "res = Inr downloadPath \<and> sx = sf"
      by (cases res) (auto simp: downloadFile_def split: option.splits)
    with tr have "downloadFile_try e fileId folderPath st = (Inr downloadPath, sf)" by simp
    from downloadFile_try_Inr[OF this] obtain url auth r fileObj content d n where
      x: "server e (sent st) (download_request url auth fileId) = Resolved r"
         "json_body r = Some fileObj" "get_field (Some fileObj) ''content'' = Inr content"
         "contentFile e content = Inr d" "file_name fileObj = Inr n"
         "downloadPath = resolve e folderPath (normalize n)"
         "sf = st\<lparr>sent := sent st @ [download_request url auth fileId],
                    files := files st @ [(downloadPath, d)]\<rparr>"
      by blast
    have q: "\<forall>c. content = Some (JStr c) \<longrightarrow>
             d = (if isFileInBase64 c then Bytes (b64_decode c) else Raw c)"
      using x(4) by (auto simp: contentFile_string)
    have "truthy (nsScript (self st))
           \<and> server e (sent st) (download_request url auth fileId) = Resolved r
           \<and> json_body r = Some fileObj
           \<and> get_field (Some fileObj) ''content'' = Inr content \<and> file_name fileObj = Inr n
           \<and> downloadPath = resolve e folderPath (normalize n)
           \<and> sent sf = sent st @ [download_request url auth fileId]
           \<and> files sf = files st @ [(downloadPath, d)]
           \<and> (\<forall>c. content = Some (JStr c) \<longrightarrow>
                 d = (if isFileInBase64 c then Bytes (b64_decode c) else Raw c))
           \<and> self sf = self st"
      using t x(1,2,3,5,6) q by (simp add: x(7))
    then show ?thesis by blast
  qed
  have 3: "downloadFile e fileId folderPath st
          = (Inr (resolve e folderPath (normalize n)),
             st\<lparr>sent := sent st @ [download_request url auth fileId],
                files := files st @ [(resolve e folderPath (normalize n),
                                      if isFileInBase64 c then Bytes (b64_decode c) else Raw c)]\<rparr>)"
    if "truthy (nsScript (self st))" "getRestletUrl (self st) = Inr url"
       "getAuthHeader (self st) = Inr auth"
       "server e (sent st) (download_request url auth fileId) = Resolved r"
       "200 \<le> status r" "status r \<le> 299" "json_body r = Some fileObj"
       "get_field (Some fileObj) ''content'' = Inr (Some (JStr c))" "file_name fileObj = Inr n"
       "writable e (resolve e folderPath (normalize n))"
    using that by (rule downloadFile_string)
  have 4: "isFileInBase64 s \<longleftrightarrow> base64_pattern s" by (rule isFileInBase64_iff)
  have 5: "isFileInBase64 (b64_encode bs) \<and> b64_decode (b64_encode bs) = bs"
    if "bs \<noteq> []" "list_all (\<lambda>x. x < 256) bs"
    using that isFileInBase64_encode b64_decode_encode by blast
  from 1 2 3 4 5 show ?thesis by blast
qed

text \<open>
  C4, instances: a file whose content is base64 and whose name holds reserved
  characters, a file of plain text, an instance without a script identifier, a text
  inside and one outside the pattern, and two bytes encoded and decoded.
\<close>

theorem downloadFile_writes_witness:
  "downloadFile server_file (JNum ''524171'') ''/tmp'' sample_state
     = (Inr ''/tmp/ab notes.txt'',
        sample_state\<lparr>sent := [sample_download], files := [(''/tmp/ab notes.txt'', Bytes [104, 105])]\<rparr>)
   \<and> downloadFile server_text (JNum ''524171'') ''/tmp'' sample_state
     = (Inr ''/tmp/list.csv'',
        sample_state\<lparr>sent := [sample_download], files := [(''/tmp/list.csv'', Raw ''id;name'')]\<rparr>)
   \<and> \<not> truthy (nsScript (self (sample_state\<lparr>self := sample_service\<lparr>nsScript := None\<rparr>\<rparr>)))
   \<and> downloadFile server_file (JNum ''524171'') ''/tmp''
        (sample_state\<lparr>self := sample_service\<lparr>nsScript := None\<rparr>\<rparr>)
     = (Inl (BaseError ''Script is required!''), sample_state\<lparr>self := sample_service\<lparr>nsScript := None\<rparr>\<rparr>)
   \<and> base64_pattern ''aGk='' \<and> \<not> base64_pattern ''id;name''
   \<and> b64_encode [104, 105] = ''aGk='' \<and> b64_decode ''aGk='' = [104, 105]
   \<and> isFileInBase64 (b64_encode [104, 105]) \<and> b64_decode (b64_encode [104, 105]) = [104, 105]"
proof -
  let ?none = "sample_state\<lparr>self := sample_service\<lparr>nsScript := None\<rparr>\<rparr>"
  let ?auth = "[(''Authorization'', ''Bearer A'')]"
  let ?id = "JNum ''524171''"
  let ?fo = "JObj [(''content'', JStr ''aGk=''), (''info'', JObj [(''name'', JStr ''a/b: notes.txt'')])]"
  let ?to = "JObj [(''content'', JStr ''id;name''), (''info'', JObj [(''name'', JStr ''list.csv'')])]"
  have t: "truthy (nsScript (self sample_state))" by code_simp
  have u: "getRestletUrl (self sample_state) = Inr (req_url sample_download)" by code_simp
  have a: "getAuthHeader (self sample_state) = Inr ?auth" by code_simp
  have q: "download_request (req_url sample_download) ?auth ?id = sample_download" by code_simp
  have s1: "server server_file (sent sample_state) (download_request (req_url sample_download) ?auth ?id)
      = Resolved file_reply" by (simp add: server_file_def)
  have s2: "server server_text (sent sample_state) (download_request (req_url sample_download) ?auth ?id)
      = Resolved text_reply" by (simp add: server_text_def)
  have ok: "200 \<le> status file_reply" "status file_reply \<le> 299"
    "200 \<le> status text_reply" "status text_reply \<le> 299"
    by (simp_all add: file_reply_def text_reply_def)
  have j: "json_body file_reply = Some ?fo" "json_body text_reply = Some ?to"
    by (simp_all add: file_reply_def text_reply_def)
  have c: "get_field (Some ?fo) ''content'' = Inr (Some (JStr ''aGk=''))"
    "get_field (Some ?to) ''content'' = Inr (Some (JStr ''id;name''))" by simp_all
  have n: "file_name ?fo = Inr ''a/b: notes.txt''" "file_name ?to = Inr ''list.csv''"
    by (simp_all add: file_name_def)
  have p: "resolve server_file ''/tmp'' (normalize ''a/b: notes.txt'') = ''/tmp/ab notes.txt''"
    "resolve server_text ''/tmp'' (normalize ''list.csv'') = ''/tmp/list.csv''" by code_simp+
  have w: "writable server_file (resolve server_file ''/tmp'' (normalize ''a/b: notes.txt''))"
    "writable server_text (resolve server_text ''/tmp'' (normalize ''list.csv''))"
    by (simp_all add: server_file_def server_text_def)
  have m: "isFileInBase64 ''aGk=''" "\<not> isFileInBase64 ''id;name''" by code_simp+
  have d: "b64_decode ''aGk='' = [104, 105]" by code_simp
  have e: "b64_encode [104, 105] = ''aGk=''" by code_simp
  have st: "sent sample_state = []" "files sample_state = []" by (simp_all add: sample_state_def)
  from downloadFile_writes[where st = sample_state and e = server_file and fileId = ?id
      and folderPath = "''/tmp''" and url = "req_url sample_download" and auth = ?auth
      and r = file_reply and fileObj = ?fo and c = "''aGk=''" and n = "''a/b: notes.txt''"]
    t u a s1 ok(1,2) j(1) c(1) n(1) w(1)
  have "downloadFile server_file ?id ''/tmp'' sample_state
     = (Inr (resolve server_file ''/tmp'' (normalize ''a/b: notes.txt'')),
        sample_state\<lparr>sent := sent sample_state @ [download_request (req_url sample_download) ?auth ?id],
           files := files sample_state @ [(resolve server_file ''/tmp'' (normalize ''a/b: notes.txt''),
                if isFileInBase64 ''aGk='' then Bytes (b64_decode ''aGk='') else Raw ''aGk='')]\<rparr>)"
    by blast
  then have 1: "downloadFile server_file ?id ''/tmp'' sample_state
     = (Inr ''/tmp/ab notes.txt'',
        sample_state\<lparr>sent := [sample_download], files := [(''/tmp/ab notes.txt'', Bytes [104, 105])]\<rparr>)"
    by (simp only: p q m d st if_True append_Nil)
  from downloadFile_writes[where st = sample_state and e = server_text and fileId = ?id
      and folderPath = "''/tmp''" and url = "req_url sample_download" and auth = ?auth
      and r = text_reply and fileObj = ?to and c = "''id;name''" and n = "''list.csv''"]
    t u a s2 ok(3,4) j(2) c(2) n(2) w(2)
  have "downloadFile server_text ?id ''/tmp'' sample_state
     = (Inr (resolve server_text ''/tmp'' (normalize ''list.csv'')),
        sample_state\<lparr>sent := sent sample_state @ [download_request (req_url sample_download) ?auth ?id],
           files := files sample_state @ [(resolve server_text ''/tmp'' (normalize ''list.csv''),
                if isFileInBase64 ''id;name'' then Bytes (b64_decode ''id;name'') else Raw ''id;name'')]\<rparr>)"
    by blast
  then have 2: "downloadFile server_text ?id ''/tmp'' sample_state
     = (Inr ''/tmp/list.csv'',
        sample_state\<lparr>sent := [sample_download], files := [(''/tmp/list.csv'', Raw ''id;name'')]\<rparr>)"
    by (simp only: p q m st if_False append_Nil)
  have 3: "\<not> truthy (nsScript (self ?none))" by simp
  from downloadFile_writes[where st = ?none and e = server_file and fileId = ?id
      and folderPath = "''/tmp''"] 3
  have 4: "downloadFile server_file ?id ''/tmp'' ?none
     = (Inl (BaseError ''Script is required!''), ?none)" by blast
  from downloadFile_writes[where s = "''aGk=''"] m(1) have 5: "base64_pattern ''aGk=''" by blast
  from downloadFile_writes[where s = "''id;name''"] m(2) have 6: "\<not> base64_pattern ''id;name''"
    by blast
  have l: "[104, 105::nat] \<noteq> []" "list_all (\<lambda>x. x < 256) [104, 105::nat]" by simp_all
  from downloadFile_writes[where bs = "[104, 105]"] l
  have 7: "isFileInBase64 (b64_encode [104, 105]) \<and> b64_decode (b64_encode [104, 105]) = [104, 105]"
    by blast
  from 1 2 3 4 5 6 7 d e show ?thesis by blast
qed

end
